theory Spec2Isabelle
  imports Complex_Main "HOL-Library.Multiset"
begin

section \<open>Data model of the virtual PTDF matrix (egret/data/ptdf\_utils.py)\<close>

text \<open>
  Numpy vectors of doubles are lists of reals (arithmetic is exact; infinities and NaN are
  outside the model). A scipy sparse matrix is its list of dense rows together with its
  column count, so that a matrix with no row still has a shape.
\<close>

type_synonym vec = "real list"

record spmatrix =
  ncols :: nat
  mrows :: "vec list"

datatype error =
    KeyError string
  | KeyErrorPair string string
  | IndexError
  | ValueError
  | TypeError

datatype trans = NoTrans | Trans

record branch =
  from_bus :: string
  to_bus :: string
  rating_long_term :: real
  rating_emergency :: "real option"

record bus =
  base_kv :: "real option"
  v_min :: real
  v_max :: real

record ptdf_options =
  lazy :: bool
  rel_flow_tol :: real
  abs_flow_tol :: real
  lazy_rel_flow_tol :: real
  lazy_rel_vm_tol :: real
  branch_kv_threshold :: "real option"
  kv_threshold_type :: string

text \<open>
  The contingency compensators are built by \<^verbatim>\<open>tx_calc\<close>; the class only reads these
  attributes of them. \<^verbatim>\<open>M\<close>, \<^verbatim>\<open>W\<close>, \<^verbatim>\<open>Wbar\<close>, \<^verbatim>\<open>Pc\<close> and
  \<^verbatim>\<open>Pr\<close> are taken to be sparse matrices and \<^verbatim>\<open>c\<close> a scalar. The two triangular factors
  \<^verbatim>\<open>U\<close> and \<^verbatim>\<open>L\<close> are solve functions, like the factorization \<^verbatim>\<open>MLU\<close> itself: a
  call \<^verbatim>\<open>solve(b, trans)\<close> returns the solution.
\<close>

record compensator =
  branch_out :: string
  cc_M :: spmatrix
  cc_c :: real
  VA_compensator :: "vec option"
  phi_compensator :: vec
  cc_U_solve :: "vec \<Rightarrow> trans \<Rightarrow> vec"
  cc_L_solve :: "vec \<Rightarrow> trans \<Rightarrow> vec"
  cc_Pc :: spmatrix
  cc_Pr :: spmatrix
  cc_W :: spmatrix
  cc_Wbar :: spmatrix

text \<open>
  The attributes set by \<^verbatim>\<open>_get_filtered_lines\<close>.
\<close>

record masked =
  branch_mask :: "nat list"
  branches_keys_masked :: "string list"
  B_dA_masked :: spmatrix
  phase_shift_flow_adjuster_array_masked :: vec
  branch_limits_array_masked :: vec
  contingency_limits_array_masked :: vec

text \<open>
  The attributes of a \<^verbatim>\<open>VirtualPTDFMatrix\<close> that never change after \<^verbatim>\<open>__init__\<close>: the
  constructor's arguments, the artefacts returned by \<^verbatim>\<open>tx_calc\<close> (factorization, sparse
  matrices, constant vectors; \<^verbatim>\<open>ref_bus_mask\<close> is a boolean mask over the buses), the
  limit arrays, whose entries are finite here, and the attributes that
  \<^verbatim>\<open>_get_filtered_lines\<close> stored. \<open>has_contingencies\<close> is the truth value of the
  dictionary \<^verbatim>\<open>contingencies\<close>. The index maps and \<^verbatim>\<open>buses_keys_no_ref\<close> are computed from
  the key tuples, below.
\<close>

record engine =
  branches :: "string \<rightharpoonup> branch"
  buses :: "string \<rightharpoonup> bus"
  reference_bus :: string
  branches_keys :: "string list"
  buses_keys :: "string list"
  interface_keys :: "string list"
  has_contingencies :: bool
  MLU_solve :: "vec \<Rightarrow> trans \<Rightarrow> vec"
  B_dA :: spmatrix
  B_dA_I :: spmatrix
  ref_bus_mask :: "bool list"
  contingency_compensators :: "string \<rightharpoonup> compensator"
  phi_adjust_array :: vec
  phase_shift_flow_adjuster_array :: vec
  phase_shift_flow_adjuster_array_interface :: vec
  branch_limits_array :: vec
  contingency_limits_array :: vec
  interface_max_limits :: vec
  interface_min_limits :: vec
  filtered :: masked

text \<open>
  The mutable part of the object: the three row caches and the dense write buffer.
  \<open>n_solves\<close> is an instrumentation counter, which the row getters increment at each
  solve they call (of \<^verbatim>\<open>MLU\<close> or of a factor of a compensator); the code has no such
  field.
\<close>

record cache_state =
  ptdf_rows :: "string \<rightharpoonup> vec"
  interface_rows :: "string \<rightharpoonup> vec"
  contingency_rows :: "string \<times> string \<rightharpoonup> vec"
  bus_sensi_buffer :: vec
  n_solves :: nat

subsection \<open>Index maps\<close>

text \<open>
  \<^verbatim>\<open>{name : i for i, name in enumerate(keys)}\<close>: a later occurrence of a name overwrites
  an earlier one.
\<close>

definition index_map :: "string list \<Rightarrow> (string \<rightharpoonup> nat)" where
  "index_map keys = map_of (rev (zip keys [0..<length keys]))"

definition branchname_to_index_map :: "engine \<Rightarrow> (string \<rightharpoonup> nat)" where
  "branchname_to_index_map eng = index_map (branches_keys eng)"

definition busname_to_index_map :: "engine \<Rightarrow> (string \<rightharpoonup> nat)" where
  "busname_to_index_map eng = index_map (buses_keys eng)"

definition interfacename_to_index_map :: "engine \<Rightarrow> (string \<rightharpoonup> nat)" where
  "interfacename_to_index_map eng = index_map (interface_keys eng)"

definition branchname_to_index_masked_map :: "engine \<Rightarrow> (string \<rightharpoonup> nat)" where
  "branchname_to_index_masked_map eng = index_map (branches_keys_masked (filtered eng))"

definition buses_keys_no_ref :: "engine \<Rightarrow> string list" where
  "buses_keys_no_ref eng = filter (\<lambda>b. b \<noteq> reference_bus eng) (buses_keys eng)"

subsection \<open>Numpy and scipy operations used by the class\<close>

text \<open>\<^verbatim>\<open>a[idx]\<close> with a list of indices: an index out of range raises.\<close>

definition np_take :: "'a list \<Rightarrow> nat list \<Rightarrow> error + 'a list" where
  "np_take xs idx =
     (if \<forall>i \<in> set idx. i < length xs then Inr (map (\<lambda>i. xs ! i) idx) else Inl IndexError)"

definition sp_take_rows :: "spmatrix \<Rightarrow> nat list \<Rightarrow> error + spmatrix" where
  "sp_take_rows A idx =
     (case np_take (mrows A) idx of
        Inl e \<Rightarrow> Inl e
      | Inr rs \<Rightarrow> Inr \<lparr>ncols = ncols A, mrows = rs\<rparr>)"

text \<open>
  \<^verbatim>\<open>A[i].toarray(out=buffer)[0]\<close>: row \<open>i\<close> of a sparse matrix written into the dense
  buffer. Scipy refuses a buffer whose shape is not that of the row.
\<close>

definition sp_row_toarray :: "spmatrix \<Rightarrow> nat \<Rightarrow> vec \<Rightarrow> error + vec" where
  "sp_row_toarray A i buf =
     (if i < length (mrows A)
      then (if ncols A = length buf then Inr (mrows A ! i) else Inl ValueError)
      else Inl IndexError)"

text \<open>\<^verbatim>\<open>A @ v\<close> and \<^verbatim>\<open>A.T @ v\<close>: a dimension mismatch raises.\<close>

definition sp_matvec :: "spmatrix \<Rightarrow> vec \<Rightarrow> error + vec" where
  "sp_matvec A v =
     (if ncols A = length v then Inr (map (\<lambda>r. sum_list (map2 (*) r v)) (mrows A))
      else Inl ValueError)"

definition sp_T_matvec :: "spmatrix \<Rightarrow> vec \<Rightarrow> error + vec" where
  "sp_T_matvec A v =
     (if length (mrows A) = length v
      then Inr (map (\<lambda>j. sum_list (map2 (\<lambda>r x. r ! j * x) (mrows A) v)) [0..<ncols A])
      else Inl ValueError)"

text \<open>
  \<^verbatim>\<open>(A[i] @ P).toarray(out=buffer)[0]\<close>: the row times a matrix is the transpose of the
  matrix times the row.
\<close>

definition sp_row_matmul_toarray :: "spmatrix \<Rightarrow> nat \<Rightarrow> spmatrix \<Rightarrow> vec \<Rightarrow> error + vec" where
  "sp_row_matmul_toarray A i P buf =
     (if i < length (mrows A)
      then (if ncols A = length (mrows P)
            then (if ncols P = length buf then sp_T_matvec P (mrows A ! i) else Inl ValueError)
            else Inl ValueError)
      else Inl IndexError)"

text \<open>\<^verbatim>\<open>row @ column\<close> followed by \<^verbatim>\<open>[0]\<close>.\<close>

definition np_dot :: "vec \<Rightarrow> vec \<Rightarrow> error + real" where
  "np_dot a b = (if length a = length b then Inr (sum_list (map2 (*) a b)) else Inl ValueError)"

text \<open>
  \<^verbatim>\<open>a + b\<close> on one-dimensional arrays with numpy's broadcasting, and the in-place
  \<^verbatim>\<open>a += b\<close>, whose result must have the shape of \<open>a\<close>.
\<close>

definition np_add :: "vec \<Rightarrow> vec \<Rightarrow> error + vec" where
  "np_add a b =
     (if length a = length b then Inr (map2 (+) a b)
      else if length a = 1 then Inr (map (\<lambda>y. hd a + y) b)
      else if length b = 1 then Inr (map (\<lambda>x. x + hd b) a)
      else Inl ValueError)"

definition np_iadd :: "vec \<Rightarrow> vec \<Rightarrow> error + vec" where
  "np_iadd a b =
     (if length a = length b then Inr (map2 (+) a b)
      else if length b = 1 then Inr (map (\<lambda>x. x + hd b) a)
      else Inl ValueError)"

definition np_scale :: "real \<Rightarrow> vec \<Rightarrow> vec" where
  "np_scale k v = map (\<lambda>x. k * x) v"

definition np_neg :: "vec \<Rightarrow> vec" where
  "np_neg v = map uminus v"

text \<open>\<^verbatim>\<open>a[mask]\<close> with a boolean mask, which must have the length of \<open>a\<close>.\<close>

definition np_bool_index :: "vec \<Rightarrow> bool list \<Rightarrow> error + vec" where
  "np_bool_index a m =
     (if length m = length a then Inr (map fst (filter snd (zip a m))) else Inl IndexError)"

text \<open>\<^verbatim>\<open>np.insert(a, i, v)\<close> and \<^verbatim>\<open>np.delete(a, i)\<close> for a non-negative index.\<close>

definition np_insert :: "'a list \<Rightarrow> nat \<Rightarrow> 'a \<Rightarrow> error + 'a list" where
  "np_insert a i v = (if i \<le> length a then Inr (take i a @ v # drop i a) else Inl IndexError)"

definition np_delete :: "'a list \<Rightarrow> nat \<Rightarrow> error + 'a list" where
  "np_delete a i = (if i < length a then Inr (take i a @ drop (Suc i) a) else Inl IndexError)"

text \<open>\<^verbatim>\<open>np.abs(row).max()\<close>: the maximum of an empty array raises.\<close>

definition np_abs_max :: "vec \<Rightarrow> error + real" where
  "np_abs_max row =
     (case row of [] \<Rightarrow> Inl ValueError | x # xs \<Rightarrow> Inr (fold max (map abs xs) \<bar>x\<bar>))"

text \<open>\<^verbatim>\<open>a[i]\<close> and \<^verbatim>\<open>a[i] = v\<close> on an array, for a non-negative index.\<close>

definition np_get :: "'a list \<Rightarrow> nat \<Rightarrow> error + 'a" where
  "np_get a i = (if i < length a then Inr (a ! i) else Inl IndexError)"

definition np_set :: "'a list \<Rightarrow> nat \<Rightarrow> 'a \<Rightarrow> error + 'a list" where
  "np_set a i v = (if i < length a then Inr (a[i := v]) else Inl IndexError)"

subsection \<open>Cached sensitivity rows\<close>

text \<open>
  \<^verbatim>\<open>__init__\<close> starts with empty caches; \<^verbatim>\<open>np.empty\<close> leaves the content of the write
  buffer arbitrary, so it is a parameter.
\<close>

definition init_state :: "vec \<Rightarrow> cache_state" where
  "init_state buf =
     \<lparr>ptdf_rows = Map.empty, interface_rows = Map.empty, contingency_rows = Map.empty,
      bus_sensi_buffer = buf, n_solves = 0\<rparr>"

text \<open>
  Each getter returns its result, a row or the exception raised, together with the state
  of the object after the call.
\<close>

definition get_ptdf_row :: "engine \<Rightarrow> cache_state \<Rightarrow> string \<Rightarrow> (error + vec) \<times> cache_state" where
  "get_ptdf_row eng st branch_name =
     (case ptdf_rows st branch_name of
        Some PTDF_row \<Rightarrow> (Inr PTDF_row, st)
      | None \<Rightarrow>
          (case branchname_to_index_map eng branch_name of
             None \<Rightarrow> (Inl (KeyError branch_name), st)
           | Some branch_idx \<Rightarrow>
               (case sp_row_toarray (B_dA eng) branch_idx (bus_sensi_buffer st) of
                  Inl e \<Rightarrow> (Inl e, st)
                | Inr buf \<Rightarrow>
                    (let PTDF_row = np_neg (MLU_solve eng buf Trans)
                     in (Inr PTDF_row,
                         st\<lparr>bus_sensi_buffer := buf, n_solves := Suc (n_solves st),
                            ptdf_rows := (ptdf_rows st)(branch_name \<mapsto> PTDF_row)\<rparr>)))))"

definition get_interface_row :: "engine \<Rightarrow> cache_state \<Rightarrow> string \<Rightarrow> (error + vec) \<times> cache_state" where
  "get_interface_row eng st interface_name =
     (case interface_rows st interface_name of
        Some I_row \<Rightarrow> (Inr I_row, st)
      | None \<Rightarrow>
          (case interfacename_to_index_map eng interface_name of
             None \<Rightarrow> (Inl (KeyError interface_name), st)
           | Some interface_idx \<Rightarrow>
               (case sp_row_toarray (B_dA_I eng) interface_idx (bus_sensi_buffer st) of
                  Inl e \<Rightarrow> (Inl e, st)
                | Inr buf \<Rightarrow>
                    (let I_row = MLU_solve eng buf Trans
                     in (Inr I_row,
                         st\<lparr>bus_sensi_buffer := buf, n_solves := Suc (n_solves st),
                            interface_rows := (interface_rows st)(interface_name \<mapsto> I_row)\<rparr>)))))"

text \<open>
  The post-contingency row. Once the buffer is written and \<^verbatim>\<open>cc.U\<close> is solved, a
  dimension error in the later products leaves these effects behind.
\<close>

definition compensated_rhs :: "compensator \<Rightarrow> vec \<Rightarrow> error + vec" where
  "compensated_rhs cc hatF =
     (case sp_T_matvec (cc_W cc) hatF of Inl e \<Rightarrow> Inl e | Inr WtF \<Rightarrow>
      case sp_matvec (cc_Wbar cc) (np_scale (- cc_c cc) WtF) of Inl e \<Rightarrow> Inl e | Inr delF \<Rightarrow>
        np_add hatF delF)"

definition get_contingency_row ::
  "engine \<Rightarrow> cache_state \<Rightarrow> string \<Rightarrow> string \<Rightarrow> (error + vec) \<times> cache_state"
where
  "get_contingency_row eng st contingency_name branch_name =
     (case contingency_rows st (contingency_name, branch_name) of
        Some cont_PTDF_row \<Rightarrow> (Inr cont_PTDF_row, st)
      | None \<Rightarrow>
          (case branchname_to_index_map eng branch_name of
             None \<Rightarrow> (Inl (KeyError branch_name), st)
           | Some branch_idx \<Rightarrow>
               (case contingency_compensators eng contingency_name of
                  None \<Rightarrow> (Inl (KeyError contingency_name), st)
                | Some cc \<Rightarrow>
                    (case sp_row_matmul_toarray (B_dA eng) branch_idx (cc_Pc cc) (bus_sensi_buffer st) of
                       Inl e \<Rightarrow> (Inl e, st)
                     | Inr buf \<Rightarrow>
                         (let hatF = cc_U_solve cc buf Trans;
                              st1 = st\<lparr>bus_sensi_buffer := buf, n_solves := Suc (n_solves st)\<rparr>
                          in case compensated_rhs cc hatF of
                               Inl e \<Rightarrow> (Inl e, st1)
                             | Inr rhs \<Rightarrow>
                                 (let y = cc_L_solve cc rhs Trans;
                                      st2 = st1\<lparr>n_solves := Suc (n_solves st1)\<rparr>
                                  in case sp_T_matvec (cc_Pr cc) y of
                                       Inl e \<Rightarrow> (Inl e, st2)
                                     | Inr cont_PTDF_row \<Rightarrow>
                                         (Inr cont_PTDF_row,
                                          st2\<lparr>contingency_rows :=
                                                (contingency_rows st2)
                                                  ((contingency_name, branch_name)
                                                     \<mapsto> cont_PTDF_row)\<rparr>)))))))"

subsection \<open>Constants and reference bus\<close>

definition get_branch_ptdf_const ::
  "engine \<Rightarrow> cache_state \<Rightarrow> string \<Rightarrow> (error + real) \<times> cache_state"
where
  "get_branch_ptdf_const eng st branch_name =
     (case get_ptdf_row eng st branch_name of
        (Inl e, st') \<Rightarrow> (Inl e, st')
      | (Inr ptdf_row, st') \<Rightarrow>
          (case branchname_to_index_map eng branch_name of
             None \<Rightarrow> (Inl (KeyError branch_name), st')
           | Some branch_idx \<Rightarrow>
               (case np_dot ptdf_row (phi_adjust_array eng) of
                  Inl e \<Rightarrow> (Inl e, st')
                | Inr phi_adj \<Rightarrow>
                    (case np_get (phase_shift_flow_adjuster_array eng) branch_idx of
                       Inl e \<Rightarrow> (Inl e, st')
                     | Inr ps \<Rightarrow> (Inr (phi_adj + ps), st')))))"

definition insert_reference_bus :: "engine \<Rightarrow> vec \<Rightarrow> real \<Rightarrow> error + vec" where
  "insert_reference_bus eng bus_array val =
     (case busname_to_index_map eng (reference_bus eng) of
        None \<Rightarrow> Inl (KeyError (reference_bus eng))
      | Some i \<Rightarrow> np_insert bus_array i val)"

definition remove_reference_bus :: "engine \<Rightarrow> vec \<Rightarrow> error + vec" where
  "remove_reference_bus eng bus_array =
     (case busname_to_index_map eng (reference_bus eng) of
        None \<Rightarrow> Inl (KeyError (reference_bus eng))
      | Some i \<Rightarrow> np_delete bus_array i)"

subsection \<open>Contingency flow differences: \<^verbatim>\<open>_calculate_PFV_delta\<close>\<close>

definition calculate_PFV_delta_impl ::
  "engine \<Rightarrow> string \<Rightarrow> vec \<Rightarrow> vec \<Rightarrow> bool \<Rightarrow> error + vec"
where
  "calculate_PFV_delta_impl eng cn PFV VA is_masked =
     (case contingency_compensators eng cn of
        None \<Rightarrow> Inl (KeyError cn)
      | Some cmpn \<Rightarrow>
     (case (if \<not> is_masked
            then (case np_bool_index VA (ref_bus_mask eng) of
                    Inl e \<Rightarrow> Inl e | Inr v \<Rightarrow> Inr (np_neg v))
            else Inr VA) of
        Inl e \<Rightarrow> Inl e
      | Inr VA1 \<Rightarrow>
     (case (case VA_compensator cmpn of
              Some vc \<Rightarrow> np_add VA1 vc
            | None \<Rightarrow> Inr VA1) of
        Inl e \<Rightarrow> Inl e
      | Inr VA0 \<Rightarrow>
     (case sp_T_matvec (cc_M cmpn) VA0 of
        Inl e \<Rightarrow> Inl e
      | Inr MtVA \<Rightarrow>
     (case sp_matvec (cc_M cmpn) (np_scale (- cc_c cmpn) MtVA) of
        Inl e \<Rightarrow> Inl e
      | Inr rhs \<Rightarrow>
     (case (case VA_compensator cmpn of
              Some vc \<Rightarrow> np_iadd (MLU_solve eng rhs NoTrans) vc
            | None \<Rightarrow> Inr (MLU_solve eng rhs NoTrans)) of
        Inl e \<Rightarrow> Inl e
      | Inr VA_delta \<Rightarrow>
     (case (if is_masked then sp_matvec (B_dA_masked (filtered eng)) VA_delta
            else sp_matvec (B_dA eng) VA_delta) of
        Inl e \<Rightarrow> Inl e
      | Inr PF_delta \<Rightarrow>
          (if is_masked then
             (case branchname_to_index_masked_map eng (branch_out cmpn) of
                Some branch_out_idx \<Rightarrow>
                  (case np_get PFV branch_out_idx of
                     Inl e \<Rightarrow> Inl e
                   | Inr f \<Rightarrow> np_set PF_delta branch_out_idx (- f))
              | None \<Rightarrow> Inr PF_delta)
           else
             (case branchname_to_index_map eng (branch_out cmpn) of
                None \<Rightarrow> Inl (KeyError (branch_out cmpn))
              | Some branch_out_idx \<Rightarrow>
                  (case np_get PFV branch_out_idx of
                     Inl e \<Rightarrow> Inl e
                   | Inr f \<Rightarrow> np_set PF_delta branch_out_idx (- f)))))))))))"

definition calculate_masked_PFV_delta :: "engine \<Rightarrow> string \<Rightarrow> vec \<Rightarrow> vec \<Rightarrow> error + vec" where
  "calculate_masked_PFV_delta eng cn PFV VA = calculate_PFV_delta_impl eng cn PFV VA True"

definition calculate_PFV_delta :: "engine \<Rightarrow> string \<Rightarrow> vec \<Rightarrow> vec \<Rightarrow> error + vec" where
  "calculate_PFV_delta eng cn PFV VA = calculate_PFV_delta_impl eng cn PFV VA False"

subsection \<open>Locational marginal prices: \<^verbatim>\<open>calculate_LMP\<close>\<close>

text \<open>
  What \<^verbatim>\<open>calculate_LMP\<close> reads from the pyomo block and the dual mapping: the dual of the
  thermal bound of a monitored branch and of an interface bound, where the block has
  that constraint; the dual of the bus balance constraint; and the items of the
  contingency constraints, in the block's order, each with its dual.
\<close>

record lmp_duals =
  branch_thermal_dual :: "string \<rightharpoonup> real"
  interface_dual :: "string \<rightharpoonup> real"
  bus_balance_dual :: real
  contingency_duals :: "((string \<times> string) \<times> real) list"

fun lmpcc_loop ::
  "(string \<times> string \<rightharpoonup> vec) \<Rightarrow> ((string \<times> string) \<times> real) list \<Rightarrow> vec \<Rightarrow> error + vec"
where
  "lmpcc_loop rows [] LMPCC = Inr LMPCC"
| "lmpcc_loop rows (((cn, bn), dual_value) # rest) LMPCC =
     (if dual_value \<noteq> 0 then
        (case rows (cn, bn) of
           None \<Rightarrow> Inl (KeyErrorPair cn bn)
         | Some row \<Rightarrow>
             (case np_iadd LMPCC (np_scale (- dual_value) row) of
                Inl e \<Rightarrow> Inl e
              | Inr LMPCC' \<Rightarrow> lmpcc_loop rows rest LMPCC'))
      else lmpcc_loop rows rest LMPCC)"

text \<open>
  The vectors \<^verbatim>\<open>PFD\<close> and \<^verbatim>\<open>PFID\<close> of duals, over the monitored branches and over the
  interfaces; a branch or interface without a constraint in the block contributes 0.
\<close>

definition lmp_PFD :: "engine \<Rightarrow> lmp_duals \<Rightarrow> vec" where
  "lmp_PFD eng mb =
     map (\<lambda>bn. case branch_thermal_dual mb bn of Some d \<Rightarrow> d | None \<Rightarrow> 0)
       (branches_keys_masked (filtered eng))"

definition lmp_PFID :: "engine \<Rightarrow> lmp_duals \<Rightarrow> vec" where
  "lmp_PFID eng mb =
     map (\<lambda>i_n. case interface_dual mb i_n of Some d \<Rightarrow> d | None \<Rightarrow> 0) (interface_keys eng)"

definition calculate_LMP :: "engine \<Rightarrow> cache_state \<Rightarrow> lmp_duals \<Rightarrow> error + vec" where
  "calculate_LMP eng st mb =
     (case sp_T_matvec (B_dA_masked (filtered eng)) (lmp_PFD eng mb) of Inl e \<Rightarrow> Inl e | Inr BtP \<Rightarrow>
      case sp_T_matvec (B_dA_I eng) (lmp_PFID eng mb) of Inl e \<Rightarrow> Inl e | Inr ItP \<Rightarrow>
        (let LMPC = MLU_solve eng (np_neg BtP) Trans;
             LMPI = MLU_solve eng (np_neg ItP) Trans;
             LMPE = bus_balance_dual mb
         in
         case np_add (map (\<lambda>x. LMPE + x) LMPC) LMPI of Inl e \<Rightarrow> Inl e | Inr LMP0 \<Rightarrow>
           (if has_contingencies eng then
              (case lmpcc_loop (contingency_rows st) (contingency_duals mb)
                      (replicate (length LMPC) 0) of
                 Inl e \<Rightarrow> Inl e
               | Inr LMPCC \<Rightarrow>
                   (case np_add LMP0 LMPCC of
                      Inl e \<Rightarrow> Inl e
                    | Inr LMP \<Rightarrow> insert_reference_bus eng LMP LMPE))
            else insert_reference_bus eng LMP0 LMPE)))"

subsection \<open>Branch filtering: \<^verbatim>\<open>_get_filtered_lines\<close>\<close>

text \<open>
  One pass of the loop body for the branch named \<open>bn\<close>: whether its index is appended to
  the mask, and the buses a warning is logged for.
\<close>

definition filter_branch ::
  "(string \<rightharpoonup> branch) \<Rightarrow> (string \<rightharpoonup> bus) \<Rightarrow> bool \<Rightarrow> real \<Rightarrow> string \<Rightarrow> error + (bool \<times> string list)"
where
  "filter_branch brs bss one kv_limit bn =
     (case brs bn of
        None \<Rightarrow> Inl (KeyError bn)
      | Some br \<Rightarrow>
          (case bss (from_bus br) of
             None \<Rightarrow> Inl (KeyError (from_bus br))
           | Some fb \<Rightarrow>
               (let fbt = (case base_kv fb of None \<Rightarrow> True | Some kv \<Rightarrow> \<not> kv < kv_limit);
                    warned = (case base_kv fb of None \<Rightarrow> [from_bus br] | Some kv \<Rightarrow> [])
                in if fbt \<and> one then Inr (True, warned)
                   else
                     (case bss (to_bus br) of
                        None \<Rightarrow> Inl (KeyError (to_bus br))
                      | Some tb \<Rightarrow>
                          (let tbt = (case base_kv tb of None \<Rightarrow> True | Some kv \<Rightarrow> kv \<ge> kv_limit)
                           in if fbt \<and> tbt then Inr (True, warned)
                              else if one \<and> tbt then Inr (True, warned)
                              else Inr (False, warned))))))"

fun filter_loop ::
  "(string \<rightharpoonup> branch) \<Rightarrow> (string \<rightharpoonup> bus) \<Rightarrow> bool \<Rightarrow> real \<Rightarrow> (nat \<times> string) list
     \<Rightarrow> nat list \<Rightarrow> string list \<Rightarrow> error + (nat list \<times> string list)"
where
  "filter_loop brs bss one kv_limit [] bmask warned = Inr (bmask, warned)"
| "filter_loop brs bss one kv_limit ((i, bn) # rest) bmask warned =
     (case filter_branch brs bss one kv_limit bn of
        Inl e \<Rightarrow> Inl e
      | Inr (keep, w) \<Rightarrow>
          filter_loop brs bss one kv_limit rest (if keep then bmask @ [i] else bmask) (warned @ w))"

definition get_filtered_lines :: "engine \<Rightarrow> ptdf_options \<Rightarrow> error + (masked \<times> string list)" where
  "get_filtered_lines eng opts =
     (case branch_kv_threshold opts of
        None \<Rightarrow>
          Inr (\<lparr>branch_mask = [0..<length (branch_limits_array eng)],
                branches_keys_masked = branches_keys eng,
                B_dA_masked = B_dA eng,
                phase_shift_flow_adjuster_array_masked = phase_shift_flow_adjuster_array eng,
                branch_limits_array_masked = branch_limits_array eng,
                contingency_limits_array_masked = contingency_limits_array eng\<rparr>, [])
      | Some kv_limit \<Rightarrow>
          (let one = (kv_threshold_type opts = ''one'') in
           case filter_loop (branches eng) (buses eng) one kv_limit
                  (zip [0..<length (branches_keys eng)] (branches_keys eng)) [] [] of
             Inl e \<Rightarrow> Inl e
           | Inr (bmask, warned) \<Rightarrow>
               (case sp_take_rows (B_dA eng) bmask of Inl e \<Rightarrow> Inl e | Inr B_m \<Rightarrow>
                case np_take (phase_shift_flow_adjuster_array eng) bmask of Inl e \<Rightarrow> Inl e | Inr ps_m \<Rightarrow>
                case np_take (branch_limits_array eng) bmask of Inl e \<Rightarrow> Inl e | Inr bl_m \<Rightarrow>
                case np_take (contingency_limits_array eng) bmask of Inl e \<Rightarrow> Inl e | Inr cl_m \<Rightarrow>
                  Inr (\<lparr>branch_mask = bmask,
                        branches_keys_masked = map (\<lambda>i. branches_keys eng ! i) bmask,
                        B_dA_masked = B_m,
                        phase_shift_flow_adjuster_array_masked = ps_m,
                        branch_limits_array_masked = bl_m,
                        contingency_limits_array_masked = cl_m\<rparr>, warned))))"

subsection \<open>Limit policy: \<^verbatim>\<open>_set_lazy_limits\<close> and \<^verbatim>\<open>_set_lazy_vm_limits\<close>\<close>


text \<open>
  \<^verbatim>\<open>np.maximum\<close> and \<^verbatim>\<open>np.minimum\<close> are elementwise; all their arguments here are
  computed from one array, so they have one shape.
\<close>

definition np_maximum :: "vec \<Rightarrow> vec \<Rightarrow> vec" where
  "np_maximum a b = map2 max a b"

definition np_minimum :: "vec \<Rightarrow> vec \<Rightarrow> vec" where
  "np_minimum a b = map2 min a b"


record vm_limits =
  enforced_vm_limits_ub :: vec
  enforced_vm_limits_lb :: vec
  lazy_vm_limits_ub :: vec
  lazy_vm_limits_lb :: vec

text \<open>
  \<^verbatim>\<open>VirtualFDFpqMatrix._set_lazy_vm_limits\<close>, on the arrays of \<^verbatim>\<open>v_max\<close> and \<^verbatim>\<open>v_min\<close> of
  the buses.
\<close>

definition set_lazy_vm_limits :: "vec \<Rightarrow> vec \<Rightarrow> ptdf_options \<Rightarrow> vm_limits option" where
  "set_lazy_vm_limits vm_ub vm_lb opts =
     (if lazy opts then
        (let rel_tol = rel_flow_tol opts;
             abs_tol = abs_flow_tol opts;
             lazy_tol = lazy_rel_vm_tol opts;
             enf_ub = np_maximum (map (\<lambda>L. L * (1 + rel_tol)) vm_ub) (map (\<lambda>L. L + abs_tol) vm_ub);
             enf_lb = np_minimum (map (\<lambda>L. L * (1 - rel_tol)) vm_lb) (map (\<lambda>L. L - abs_tol) vm_lb);
             lazy_ub = np_minimum (map (\<lambda>L. L * (1 + lazy_tol)) vm_ub) enf_ub;
             lazy_lb = np_maximum (map (\<lambda>L. L * (1 - lazy_tol)) vm_lb) enf_lb
         in Some \<lparr>enforced_vm_limits_ub = enf_ub, enforced_vm_limits_lb = enf_lb,
                  lazy_vm_limits_ub = lazy_ub, lazy_vm_limits_lb = lazy_lb\<rparr>)
      else None)"

subsection \<open>Sequences of row requests\<close>

text \<open>
  A client of the object asks for rows one after the other; an exception ends the query
  that raised it, and the client goes on with the object as that query left it.
\<close>

datatype request = BranchRow string | ContingencyRow string string | InterfaceRow string

definition serve :: "engine \<Rightarrow> cache_state \<Rightarrow> request \<Rightarrow> (error + vec) \<times> cache_state" where
  "serve eng st r =
     (case r of
        BranchRow branch_name \<Rightarrow> get_ptdf_row eng st branch_name
      | ContingencyRow contingency_name branch_name \<Rightarrow>
          get_contingency_row eng st contingency_name branch_name
      | InterfaceRow interface_name \<Rightarrow> get_interface_row eng st interface_name)"

fun run_requests ::
  "engine \<Rightarrow> cache_state \<Rightarrow> request list \<Rightarrow> (error + vec) list \<times> cache_state"
where
  "run_requests eng st [] = ([], st)"
| "run_requests eng st (r # rs) =
     (case serve eng st r of
        (res, st1) \<Rightarrow> (case run_requests eng st1 rs of (ress, st2) \<Rightarrow> (res # ress, st2)))"

text \<open>The three caches read as one map from requests to rows.\<close>

definition cache_lookup :: "cache_state \<Rightarrow> request \<Rightarrow> vec option" where
  "cache_lookup st r =
     (case r of
        BranchRow branch_name \<Rightarrow> ptdf_rows st branch_name
      | ContingencyRow contingency_name branch_name \<Rightarrow>
          contingency_rows st (contingency_name, branch_name)
      | InterfaceRow interface_name \<Rightarrow> interface_rows st interface_name)"

text \<open>
  The key of a request is registered when the index map of its kind holds it; a
  contingency is registered when it has a compensator.
\<close>

definition registered :: "engine \<Rightarrow> request \<Rightarrow> bool" where
  "registered eng r =
     (case r of
        BranchRow branch_name \<Rightarrow> branch_name \<in> set (branches_keys eng)
      | ContingencyRow contingency_name branch_name \<Rightarrow>
          branch_name \<in> set (branches_keys eng)
          \<and> contingency_name \<in> dom (contingency_compensators eng)
      | InterfaceRow interface_name \<Rightarrow> interface_name \<in> set (interface_keys eng))"

text \<open>Every dense row of a sparse matrix has as many entries as the matrix has columns.\<close>

definition sp_wf :: "spmatrix \<Rightarrow> bool" where
  "sp_wf A = (\<forall>r \<in> set (mrows A). length r = ncols A)"

text \<open>
  A state agrees with a state \<open>st0\<close> it descends from: the buffer has kept its length,
  the entries cached in \<open>st0\<close> are still there, and every cached row is the answer \<open>st0\<close>
  gives to the request.
\<close>

definition agrees :: "engine \<Rightarrow> cache_state \<Rightarrow> cache_state \<Rightarrow> bool" where
  "agrees eng st0 st =
     (length (bus_sensi_buffer st) = length (bus_sensi_buffer st0)
      \<and> (\<forall>r row. cache_lookup st0 r = Some row \<longrightarrow> cache_lookup st r = Some row)
      \<and> (\<forall>r row. cache_lookup st r = Some row \<longrightarrow> fst (serve eng st0 r) = Inr row))"

section \<open>Voltage and loss sensitivities and their linear expressions\<close>

text \<open>
  What \<^verbatim>\<open>VirtualFDFpMatrix\<close> and \<^verbatim>\<open>VirtualFDFpqMatrix\<close> add to the base class, as far as
  the expression builders of \<^verbatim>\<open>egret/model_library/transmission/bus.py\<close> read it: the
  factorization \<^verbatim>\<open>QMLU\<close>, the vector \<^verbatim>\<open>QM0\<close>, and the loss factors \<^verbatim>\<open>_lossfactor\<close>, a
  dictionary from bus names to values kept in its insertion order, with the offset
  \<^verbatim>\<open>_lossoffset\<close>. \<^verbatim>\<open>_calculate_lossfactors\<close> stores the same dictionary and offset as the
  residual loss factors, and nothing under \<^verbatim>\<open>src\<close> calls the method that would change
  them.
\<close>

record fdf_engine =
  fdf_base :: engine
  QMLU_solve :: "vec \<Rightarrow> trans \<Rightarrow> vec"
  QM0 :: vec
  lossfactor :: "(string \<times> real) list"
  lossoffset :: real

definition lossfactor_resid :: "fdf_engine \<Rightarrow> (string \<times> real) list" where
  "lossfactor_resid PTDF = lossfactor PTDF"

definition lossoffset_resid :: "fdf_engine \<Rightarrow> real" where
  "lossoffset_resid PTDF = lossoffset PTDF"

record fdf_state =
  vdf_rows :: "string \<rightharpoonup> vec"
  vdf_const :: "string \<rightharpoonup> real"

definition fdf_init_state :: fdf_state where
  "fdf_init_state = \<lparr>vdf_rows = Map.empty, vdf_const = Map.empty\<rparr>"

definition get_vdf_row :: "fdf_engine \<Rightarrow> fdf_state \<Rightarrow> string \<Rightarrow> (error + vec) \<times> fdf_state" where
  "get_vdf_row PTDF fs bus_name =
     (case vdf_rows fs bus_name of
        Some VDF_row \<Rightarrow> (Inr VDF_row, fs)
      | None \<Rightarrow>
          (case busname_to_index_map (fdf_base PTDF) bus_name of
             None \<Rightarrow> (Inl (KeyError bus_name), fs)
           | Some bus_idx \<Rightarrow>
               (case np_set (replicate (length (buses_keys (fdf_base PTDF))) 0) bus_idx 1 of
                  Inl e \<Rightarrow> (Inl e, fs)
                | Inr rhs \<Rightarrow>
                    (let VDF_row = np_neg (QMLU_solve PTDF rhs Trans)
                     in (Inr VDF_row, fs\<lparr>vdf_rows := (vdf_rows fs)(bus_name \<mapsto> VDF_row)\<rparr>)))))"

definition get_bus_vdf_iterator ::
  "fdf_engine \<Rightarrow> fdf_state \<Rightarrow> string \<Rightarrow> (error + (string \<times> real) list) \<times> fdf_state"
where
  "get_bus_vdf_iterator PTDF fs bus_name =
     (case get_vdf_row PTDF fs bus_name of
        (Inl e, fs') \<Rightarrow> (Inl e, fs')
      | (Inr vdf_row, fs') \<Rightarrow> (Inr (zip (buses_keys (fdf_base PTDF)) vdf_row), fs'))"

definition get_bus_vdf_abs_max ::
  "fdf_engine \<Rightarrow> fdf_state \<Rightarrow> string \<Rightarrow> (error + real) \<times> fdf_state"
where
  "get_bus_vdf_abs_max PTDF fs bus_name =
     (case get_vdf_row PTDF fs bus_name of
        (Inl e, fs') \<Rightarrow> (Inl e, fs')
      | (Inr vdf_row, fs') \<Rightarrow> (np_abs_max vdf_row, fs'))"

definition get_bus_vdf_const ::
  "fdf_engine \<Rightarrow> fdf_state \<Rightarrow> string \<Rightarrow> (error + real) \<times> fdf_state"
where
  "get_bus_vdf_const PTDF fs bus_name =
     (case vdf_const fs bus_name of
        Some cnst \<Rightarrow> (Inr cnst, fs)
      | None \<Rightarrow>
          (case get_vdf_row PTDF fs bus_name of
             (Inl e, fs') \<Rightarrow> (Inl e, fs')
           | (Inr vdf_row, fs') \<Rightarrow>
               (case busname_to_index_map (fdf_base PTDF) bus_name of
                  None \<Rightarrow> (Inl (KeyError bus_name), fs')
                | Some bus_idx \<Rightarrow>
                    (case np_dot vdf_row (QM0 PTDF) of
                       Inl e \<Rightarrow> (Inl e, fs')
                     | Inr cnst \<Rightarrow>
                         (Inr cnst, fs'\<lparr>vdf_const := (vdf_const fs')(bus_name \<mapsto> cnst)\<rparr>)))))"

definition get_lossfactor_abs_max :: "fdf_engine \<Rightarrow> error + real" where
  "get_lossfactor_abs_max PTDF = np_abs_max (map snd (lossfactor PTDF))"

text \<open>
  What the builders read from the pyomo block: for a bus in the index of \<^verbatim>\<open>p_nw\<close> or
  \<^verbatim>\<open>q_nw\<close> its current value (the \<^verbatim>\<open>value\<close> of a variable, or \<^verbatim>\<open>expr()\<close> of an
  expression), the branches that have a \<^verbatim>\<open>pfl\<close> entry, and the list \<^verbatim>\<open>_idx_monitored\<close>.
  The expression built is the list of variables, the list of their coefficients and
  the constant, which is what both \<^verbatim>\<open>LinearExpression\<close> and \<^verbatim>\<open>quicksum\<close> are given.
\<close>

record pyomo_block =
  p_nw :: "string \<rightharpoonup> real"
  q_nw :: "string \<rightharpoonup> real"
  pfl :: "string \<rightharpoonup> real"
  idx_monitored :: "nat list"

datatype var = P_nw string | Q_nw string | Pfl string

record lin_expr =
  linear_vars :: "var list"
  linear_coefs :: "real list"
  constant_term :: real

fun vm_expr_loop ::
  "(string \<rightharpoonup> real) \<Rightarrow> real \<Rightarrow> (string \<times> real) list \<Rightarrow> real list \<Rightarrow> var list \<Rightarrow> real
     \<Rightarrow> error + (real list \<times> var list \<times> real)"
where
  "vm_expr_loop m_q_nw ptdf_tol [] coef_list var_list cnst = Inr (coef_list, var_list, cnst)"
| "vm_expr_loop m_q_nw ptdf_tol ((bn, coef) # rest) coef_list var_list cnst =
     (if \<bar>coef\<bar> \<ge> ptdf_tol then
        (case m_q_nw bn of
           None \<Rightarrow> Inl (KeyError bn)
         | Some v \<Rightarrow>
             vm_expr_loop m_q_nw ptdf_tol rest (coef_list @ [coef]) (var_list @ [Q_nw bn]) cnst)
      else
        (case m_q_nw bn of
           None \<Rightarrow> Inl (KeyError bn)
         | Some v \<Rightarrow> vm_expr_loop m_q_nw ptdf_tol rest coef_list var_list (cnst + coef * v)))"

definition get_vm_expr_ptdf_approx ::
  "pyomo_block \<Rightarrow> string \<Rightarrow> fdf_engine \<Rightarrow> fdf_state \<Rightarrow> real option \<Rightarrow> real option
     \<Rightarrow> (error + lin_expr) \<times> fdf_state"
where
  "get_vm_expr_ptdf_approx blk bus_name PTDF fs rel_ptdf_tol abs_ptdf_tol =
     (let rel_tol = (case rel_ptdf_tol of None \<Rightarrow> 0 | Some r \<Rightarrow> r);
          abs_tol = (case abs_ptdf_tol of None \<Rightarrow> 0 | Some a \<Rightarrow> a)
      in
      case get_bus_vdf_const PTDF fs bus_name of
        (Inl e, fs1) \<Rightarrow> (Inl e, fs1)
      | (Inr cnst, fs1) \<Rightarrow>
      (case get_bus_vdf_abs_max PTDF fs1 bus_name of
        (Inl e, fs2) \<Rightarrow> (Inl e, fs2)
      | (Inr max_coef, fs2) \<Rightarrow>
      (let ptdf_tol = max abs_tol (rel_tol * max_coef) in
       case get_bus_vdf_iterator PTDF fs2 bus_name of
        (Inl e, fs3) \<Rightarrow> (Inl e, fs3)
      | (Inr it, fs3) \<Rightarrow>
      (case vm_expr_loop (q_nw blk) ptdf_tol it [] [] cnst of
        Inl e \<Rightarrow> (Inl e, fs3)
      | Inr (coef_list, var_list, cnst') \<Rightarrow>
          (Inr \<lparr>linear_vars = var_list, linear_coefs = coef_list, constant_term = cnst'\<rparr>, fs3)))))"

fun ploss_expr_loop ::
  "(string \<rightharpoonup> real) \<Rightarrow> real \<Rightarrow> (string \<times> real) list \<Rightarrow> real list \<Rightarrow> var list
     \<Rightarrow> error + (real list \<times> var list)"
where
  "ploss_expr_loop m_p_nw ptdf_tol [] coef_list var_list = Inr (coef_list, var_list)"
| "ploss_expr_loop m_p_nw ptdf_tol ((bus_name, coef) # rest) coef_list var_list =
     (if \<bar>coef\<bar> \<ge> ptdf_tol then
        (case m_p_nw bus_name of
           None \<Rightarrow> Inl (KeyError bus_name)
         | Some v \<Rightarrow>
             ploss_expr_loop m_p_nw ptdf_tol rest (coef_list @ [coef]) (var_list @ [P_nw bus_name]))
      else ploss_expr_loop m_p_nw ptdf_tol rest coef_list var_list)"

fun residual_loop ::
  "string list \<Rightarrow> (string \<rightharpoonup> real) \<Rightarrow> nat list \<Rightarrow> real list \<Rightarrow> var list
     \<Rightarrow> error + (real list \<times> var list)"
where
  "residual_loop keys_masked m_pfl [] coef_list var_list = Inr (coef_list, var_list)"
| "residual_loop keys_masked m_pfl (i # rest) coef_list var_list =
     (case np_get keys_masked i of
        Inl e \<Rightarrow> Inl e
      | Inr bn \<Rightarrow>
          (case m_pfl bn of
             None \<Rightarrow> Inl (KeyError bn)
           | Some v \<Rightarrow>
               residual_loop keys_masked m_pfl rest (coef_list @ [1]) (var_list @ [Pfl bn])))"

definition get_ploss_expr_ptdf_approx ::
  "pyomo_block \<Rightarrow> fdf_engine \<Rightarrow> real option \<Rightarrow> real option \<Rightarrow> bool \<Rightarrow> error + lin_expr"
where
  "get_ploss_expr_ptdf_approx m PTDF abs_ptdf_tol rel_ptdf_tol use_residuals =
     (let cnst = (if \<not> use_residuals then lossoffset PTDF else lossoffset_resid PTDF);
          it = (if \<not> use_residuals then lossfactor PTDF else lossfactor_resid PTDF)
      in
      case get_lossfactor_abs_max PTDF of
        Inl e \<Rightarrow> Inl e
      | Inr max_coef \<Rightarrow>
      (case (abs_ptdf_tol, rel_ptdf_tol) of
        (Some abs_tol, Some rel_tol) \<Rightarrow>
          (let ptdf_tol = max abs_tol (rel_tol * max_coef) in
           case ploss_expr_loop (p_nw m) ptdf_tol it [] [] of
             Inl e \<Rightarrow> Inl e
           | Inr (coef_list, var_list) \<Rightarrow>
               (case (if use_residuals
                      then residual_loop (branches_keys_masked (filtered (fdf_base PTDF)))
                             (pfl m) (idx_monitored m) coef_list var_list
                      else Inr (coef_list, var_list)) of
                  Inl e \<Rightarrow> Inl e
                | Inr (coef_list', var_list') \<Rightarrow>
                    Inr \<lparr>linear_vars = var_list', linear_coefs = coef_list', constant_term = cnst\<rparr>))
      | _ \<Rightarrow> Inl TypeError))"

section \<open>A three-bus radial network\<close>

text \<open>
  Buses A (the reference bus), B and C; branch1 from A to B with reactance 0.1 and
  branch2 from B to C with reactance 0.2. The reduced susceptance matrix is
  \<open>[[15, -5], [-5, 5]]\<close>, with inverse \<open>[[1/10, 1/10], [1/10, 3/10]]\<close>; it is
  symmetric, so both solves are the product with its inverse. Bus A has base voltage 69,
  bus B 138, and bus C has none. There is one interface, made of branch2, and one
  contingency, the outage of branch2; its compensator is a small one of matching
  dimensions.
\<close>

definition ex_solve :: "vec \<Rightarrow> trans \<Rightarrow> vec" where
  "ex_solve v t = (case v of [x, y] \<Rightarrow> [x / 10 + y / 10, x / 10 + 3 * y / 10] | _ \<Rightarrow> v)"

definition ex_identity :: spmatrix where
  "ex_identity = \<lparr>ncols = 2, mrows = [[1, 0], [0, 1]]\<rparr>"

definition ex_compensator :: compensator where
  "ex_compensator =
     \<lparr>branch_out = ''branch2'',
      cc_M = \<lparr>ncols = 1, mrows = [[1], [-1]]\<rparr>,
      cc_c = 1 / 2,
      VA_compensator = None,
      phi_compensator = [0, 0],
      cc_U_solve = (\<lambda>v t. v),
      cc_L_solve = (\<lambda>v t. v),
      cc_Pc = ex_identity,
      cc_Pr = ex_identity,
      cc_W = \<lparr>ncols = 1, mrows = [[1], [-1]]\<rparr>,
      cc_Wbar = \<lparr>ncols = 1, mrows = [[1], [-1]]\<rparr>\<rparr>"

definition ex_branches :: "string \<rightharpoonup> branch" where
  "ex_branches =
     [''branch1'' \<mapsto> \<lparr>from_bus = ''A'', to_bus = ''B'', rating_long_term = 100,
                        rating_emergency = Some 120\<rparr>,
      ''branch2'' \<mapsto> \<lparr>from_bus = ''B'', to_bus = ''C'', rating_long_term = 100,
                        rating_emergency = Some 120\<rparr>]"

definition ex_buses :: "string \<rightharpoonup> bus" where
  "ex_buses =
     [''A'' \<mapsto> \<lparr>base_kv = Some 69, v_min = 9 / 10, v_max = 11 / 10\<rparr>,
      ''B'' \<mapsto> \<lparr>base_kv = Some 138, v_min = 9 / 10, v_max = 11 / 10\<rparr>,
      ''C'' \<mapsto> \<lparr>base_kv = None, v_min = 9 / 10, v_max = 11 / 10\<rparr>]"

definition ex_B_dA :: spmatrix where
  "ex_B_dA = \<lparr>ncols = 2, mrows = [[-10, 0], [5, -5]]\<rparr>"

definition ex_masked :: masked where
  "ex_masked =
     \<lparr>branch_mask = [0, 1],
      branches_keys_masked = [''branch1'', ''branch2''],
      B_dA_masked = ex_B_dA,
      phase_shift_flow_adjuster_array_masked = [3, 0],
      branch_limits_array_masked = [100, 100],
      contingency_limits_array_masked = [120, 120]\<rparr>"

definition ex_engine :: engine where
  "ex_engine =
     \<lparr>branches = ex_branches,
      buses = ex_buses,
      reference_bus = ''A'',
      branches_keys = [''branch1'', ''branch2''],
      buses_keys = [''A'', ''B'', ''C''],
      interface_keys = [''I1''],
      has_contingencies = True,
      MLU_solve = ex_solve,
      B_dA = ex_B_dA,
      B_dA_I = \<lparr>ncols = 2, mrows = [[5, -5]]\<rparr>,
      ref_bus_mask = [False, True, True],
      contingency_compensators = [''c1'' \<mapsto> ex_compensator],
      phi_adjust_array = [1 / 2, 1 / 4],
      phase_shift_flow_adjuster_array = [3, 0],
      phase_shift_flow_adjuster_array_interface = [0],
      branch_limits_array = [100, 100],
      contingency_limits_array = [120, 120],
      interface_max_limits = [50],
      interface_min_limits = [-50],
      filtered = ex_masked\<rparr>"

definition ex_options :: "real option \<Rightarrow> string \<Rightarrow> ptdf_options" where
  "ex_options kv_threshold threshold_type =
     \<lparr>lazy = True, rel_flow_tol = 1 / 10, abs_flow_tol = 0, lazy_rel_flow_tol = 0,
      lazy_rel_vm_tol = 0, branch_kv_threshold = kv_threshold,
      kv_threshold_type = threshold_type\<rparr>"


text \<open>
  Options with an absolute tolerance of 10 and no relative tolerance, and lazy tolerances
  of 1/10.
\<close>

definition ex_abs_options :: ptdf_options where
  "ex_abs_options =
     \<lparr>lazy = True, rel_flow_tol = 0, abs_flow_tol = 10, lazy_rel_flow_tol = 1 / 10,
      lazy_rel_vm_tol = 1 / 10, branch_kv_threshold = None, kv_threshold_type = ''both''\<rparr>"

text \<open>
  Duals for the three-bus network: energy price 30, a dual of 2 on the thermal bound of
  branch1, no interface dual and no contingency constraint.
\<close>

definition ex_duals :: lmp_duals where
  "ex_duals =
     \<lparr>branch_thermal_dual = [''branch1'' \<mapsto> 2], interface_dual = Map.empty,
      bus_balance_dual = 30, contingency_duals = []\<rparr>"

text \<open>
  Duals that reach every component of the price: a dual of 2 on the thermal bound of
  branch1, of 4 on the bound of interface I1 and of 3 on the bound of branch1 under
  contingency c1, with energy price 30; and the state of the object once the row of
  branch1 under contingency c1 has been requested.
\<close>

definition ex_duals_all :: lmp_duals where
  "ex_duals_all =
     \<lparr>branch_thermal_dual = [''branch1'' \<mapsto> 2], interface_dual = [''I1'' \<mapsto> 4],
      bus_balance_dual = 30, contingency_duals = [((''c1'', ''branch1''), 3)]\<rparr>"

definition ex_state_c1 :: cache_state where
  "ex_state_c1 = snd (get_contingency_row ex_engine (init_state [0, 0]) ''c1'' ''branch1'')"

text \<open>
  The reactive side of the three-bus network: a solve over all three buses, loss factors
  with 0 at the reference bus, and a block that has a value for every bus, \<open>x\<close> at bus C.
\<close>

definition ex_Qsolve :: "vec \<Rightarrow> trans \<Rightarrow> vec" where
  "ex_Qsolve v t = (case v of [x, y, z] \<Rightarrow> [x + y / 2, y, z + y / 4] | _ \<Rightarrow> v)"

definition ex_fdf :: fdf_engine where
  "ex_fdf =
     \<lparr>fdf_base = ex_engine, QMLU_solve = ex_Qsolve, QM0 = [1, 1, 1],
      lossfactor = [(''A'', 0), (''B'', 1 / 50), (''C'', 1 / 20)], lossoffset = 1 / 100\<rparr>"

definition ex_block :: "real \<Rightarrow> pyomo_block" where
  "ex_block x =
     \<lparr>p_nw = [''A'' \<mapsto> 0, ''B'' \<mapsto> 1, ''C'' \<mapsto> x],
      q_nw = [''A'' \<mapsto> 0, ''B'' \<mapsto> 1, ''C'' \<mapsto> x],
      pfl = [''branch1'' \<mapsto> 0, ''branch2'' \<mapsto> 0],
      idx_monitored = [1]\<rparr>"

text \<open>
  The expressions built on the three-bus network: the voltage expression of bus B with
  relative tolerance 2/5, when \<^verbatim>\<open>q_nw\<close> of C is 2 and when it is 7 (the term of C is
  below the tolerance and goes into the constant), and the loss expression with relative
  tolerance 1/2 and residuals.
\<close>

definition ex_vm_expr :: lin_expr where
  "ex_vm_expr =
     \<lparr>linear_vars = [Q_nw ''A'', Q_nw ''B''], linear_coefs = [- (1 / 2), - 1],
      constant_term = - (9 / 4)\<rparr>"

definition ex_vm_expr7 :: lin_expr where
  "ex_vm_expr7 =
     \<lparr>linear_vars = [Q_nw ''A'', Q_nw ''B''], linear_coefs = [- (1 / 2), - 1],
      constant_term = - (7 / 2)\<rparr>"

definition ex_ploss_expr :: lin_expr where
  "ex_ploss_expr =
     \<lparr>linear_vars = [P_nw ''C'', Pfl ''branch2''], linear_coefs = [1 / 20, 1],
      constant_term = 1 / 100\<rparr>"

section \<open>Specification-side predicates and well-formedness\<close>

text \<open>
  The filtering rule in the specification's words: a bus passes when it has no
  \<^verbatim>\<open>base_kv\<close> or its \<^verbatim>\<open>base_kv\<close> is at least the threshold; mode "one" asks one terminal
  bus to pass, any other mode both.
\<close>

definition bus_passes :: "real \<Rightarrow> bus \<Rightarrow> bool" where
  "bus_passes kv b = (case base_kv b of None \<Rightarrow> True | Some v \<Rightarrow> v \<ge> kv)"

definition spec_retained :: "string \<Rightarrow> real \<Rightarrow> bus \<Rightarrow> bus \<Rightarrow> bool" where
  "spec_retained mode kv fb tb =
     (if mode = ''one'' then bus_passes kv fb \<or> bus_passes kv tb
      else bus_passes kv fb \<and> bus_passes kv tb)"

text \<open>
  The invariant of the network extract (every branch key names a branch whose two buses
  are in the bus set), and the per-branch arrays have one entry for each branch key.
\<close>

definition network_wf :: "engine \<Rightarrow> bool" where
  "network_wf eng =
     ((\<forall>bn \<in> set (branches_keys eng).
         \<exists>br. branches eng bn = Some br \<and> from_bus br \<in> dom (buses eng)
                \<and> to_bus br \<in> dom (buses eng))
      \<and> length (mrows (B_dA eng)) = length (branches_keys eng)
      \<and> length (phase_shift_flow_adjuster_array eng) = length (branches_keys eng)
      \<and> length (branch_limits_array eng) = length (branches_keys eng)
      \<and> length (contingency_limits_array eng) = length (branches_keys eng))"

text \<open>What one pass of the filtering loop decides and logs, when it does not raise.\<close>

definition keep_of :: "(string \<rightharpoonup> branch) \<Rightarrow> (string \<rightharpoonup> bus) \<Rightarrow> bool \<Rightarrow> real \<Rightarrow> string \<Rightarrow> bool" where
  "keep_of brs bss one kv bn =
     (case filter_branch brs bss one kv bn of Inr (k, w) \<Rightarrow> k | Inl e \<Rightarrow> False)"

definition warn_of ::
  "(string \<rightharpoonup> branch) \<Rightarrow> (string \<rightharpoonup> bus) \<Rightarrow> bool \<Rightarrow> real \<Rightarrow> string \<Rightarrow> string list" where
  "warn_of brs bss one kv bn =
     (case filter_branch brs bss one kv bn of Inr (k, w) \<Rightarrow> w | Inl e \<Rightarrow> [])"



definition ex_neg_vm_limits :: vm_limits where
  "ex_neg_vm_limits =
     \<lparr>enforced_vm_limits_ub = [- 90], enforced_vm_limits_lb = [- 130],
      lazy_vm_limits_ub = [- 110], lazy_vm_limits_lb = [- 108]\<rparr>"





text \<open>
  The truncation rule in the specification's words: of the (bus, coefficient) pairs of a
  row, those with \<open>\<bar>coef\<bar> \<ge> max abs_tol (rel_tol * row_abs_max)\<close>, where \<open>row_abs_max\<close> is
  the largest absolute coefficient of the row; and the pairs of a built expression whose
  variable is the injection of a bus.
\<close>

definition spec_included :: "real \<Rightarrow> real \<Rightarrow> vec \<Rightarrow> (string \<times> real) list \<Rightarrow> (string \<times> real) list" where
  "spec_included abs_tol rel_tol row pairs =
     filter (\<lambda>(b, c). \<bar>c\<bar> \<ge> max abs_tol (rel_tol * Max (set (map abs row)))) pairs"

definition bus_terms :: "lin_expr \<Rightarrow> (string \<times> real) list" where
  "bus_terms e =
     concat (map (\<lambda>(v, c). case v of P_nw b \<Rightarrow> [(b, c)] | Q_nw b \<Rightarrow> [(b, c)] | Pfl bn \<Rightarrow> [])
               (zip (linear_vars e) (linear_coefs e)))"

definition tol_or_zero :: "real option \<Rightarrow> real" where
  "tol_or_zero t = (case t of None \<Rightarrow> 0 | Some x \<Rightarrow> x)"

text \<open>
  The shapes of a compensator for a write buffer of \<open>n\<close> entries: \<^verbatim>\<open>Pc\<close> maps a row of
  \<^verbatim>\<open>B_dA\<close> to the buffer, the triangular solves keep the length of their argument, and
  \<^verbatim>\<open>W\<close>, \<^verbatim>\<open>Wbar\<close> and \<^verbatim>\<open>Pr\<close> have \<open>n\<close> rows, \<^verbatim>\<open>Wbar\<close> with the columns of \<^verbatim>\<open>W\<close>.
\<close>

definition compensator_wf :: "engine \<Rightarrow> nat \<Rightarrow> compensator \<Rightarrow> bool" where
  "compensator_wf eng n cc =
     (length (mrows (cc_Pc cc)) = ncols (B_dA eng)
      \<and> ncols (cc_Pc cc) = n
      \<and> (\<forall>v. length (cc_U_solve cc v Trans) = length v)
      \<and> (\<forall>v. length (cc_L_solve cc v Trans) = length v)
      \<and> length (mrows (cc_W cc)) = n
      \<and> ncols (cc_Wbar cc) = ncols (cc_W cc)
      \<and> length (mrows (cc_Wbar cc)) = n
      \<and> length (mrows (cc_Pr cc)) = n)"

text \<open>
  The components of the price in the specification's words: the dual values are
  back-substituted through the transpose factorization. Entry \<open>j\<close> of the negated
  product of the transpose of a matrix with a vector of duals is written out as a sum
  over the rows; the branch congestion component takes the duals of the monitored
  branches (0 for a branch without a constraint), the interface component those of the
  interfaces; entry \<open>j\<close> of the contingency congestion component is the sum, over the
  contingency constraints, of minus the dual times entry \<open>j\<close> of the cached row.
\<close>

definition neg_transpose_product :: "spmatrix \<Rightarrow> vec \<Rightarrow> vec" where
  "neg_transpose_product A d =
     map (\<lambda>j. - (\<Sum>k\<leftarrow>[0..<length d]. mrows A ! k ! j * d ! k)) [0..<ncols A]"

definition branch_congestion_component :: "engine \<Rightarrow> lmp_duals \<Rightarrow> vec" where
  "branch_congestion_component eng mb =
     MLU_solve eng
       (neg_transpose_product (B_dA_masked (filtered eng))
          (map (\<lambda>bn. case branch_thermal_dual mb bn of Some d \<Rightarrow> d | None \<Rightarrow> 0)
             (branches_keys_masked (filtered eng))))
       Trans"

definition interface_component :: "engine \<Rightarrow> lmp_duals \<Rightarrow> vec" where
  "interface_component eng mb =
     MLU_solve eng
       (neg_transpose_product (B_dA_I eng)
          (map (\<lambda>i_n. case interface_dual mb i_n of Some d \<Rightarrow> d | None \<Rightarrow> 0)
             (interface_keys eng)))
       Trans"

definition contingency_congestion_component ::
  "(string \<times> string \<rightharpoonup> vec) \<Rightarrow> ((string \<times> string) \<times> real) list \<Rightarrow> nat \<Rightarrow> real"
where
  "contingency_congestion_component rows ds j =
     (\<Sum>p\<leftarrow>ds. - snd p * (case rows (fst p) of Some row \<Rightarrow> row ! j | None \<Rightarrow> 0))"

section \<open>Properties\<close>

subsection \<open>Index maps and the reference bus\<close>

lemma index_map_None: "index_map keys k = None \<longleftrightarrow> k \<notin> set keys"
proof -
  have "fst ` set (zip keys [0..<length keys]) = set keys"
    by (metis length_upt map_fst_zip minus_nat.diff_0 set_map)
  then show ?thesis by (simp add: index_map_def map_of_eq_None_iff)
qed

lemma index_map_Some: 
  assumes "index_map keys k = Some i"
  shows "i < length keys \<and> keys ! i = k"
proof -
  from assms have "(k, i) \<in> set (zip keys [0..<length keys])"
    by (auto simp: index_map_def dest: map_of_SomeD)
  then show ?thesis by (auto simp: set_zip)
qed

lemma index_map_distinct:
  assumes "distinct keys" "i < length keys"
  shows "index_map keys (keys ! i) = Some i"
proof -
  have d: "distinct (map fst (rev (zip keys [0..<length keys])))"
    using assms(1) by (simp add: rev_map[symmetric])
  have "(keys ! i, i) \<in> set (rev (zip keys [0..<length keys]))"
    using assms(2) by (auto simp: set_zip)
  from map_of_is_SomeI[OF d this] show ?thesis by (simp add: index_map_def)
qed

lemma filter_neq_nth:
  assumes "distinct xs" "i < length xs"
  shows "filter (\<lambda>b. b \<noteq> xs ! i) xs = take i xs @ drop (Suc i) xs"
proof -
  have split: "xs = take i xs @ xs ! i # drop (Suc i) xs"
    using assms(2) by (rule id_take_nth_drop)
  have "distinct (take i xs @ xs ! i # drop (Suc i) xs)"
    using assms(1) split by simp
  then have a: "xs ! i \<notin> set (take i xs)" and b: "xs ! i \<notin> set (drop (Suc i) xs)"
    by auto
  have fa: "filter (\<lambda>b. b \<noteq> xs ! i) (take i xs) = take i xs"
    using a by (auto simp: filter_id_conv)
  have fb: "filter (\<lambda>b. b \<noteq> xs ! i) (drop (Suc i) xs) = drop (Suc i) xs"
    using b by (auto simp: filter_id_conv)
  have "filter (\<lambda>b. b \<noteq> xs ! i) xs
          = filter (\<lambda>b. b \<noteq> xs ! i) (take i xs @ xs ! i # drop (Suc i) xs)"
    using split by simp
  also have "\<dots> = take i xs @ drop (Suc i) xs"
    by (simp add: fa fb)
  finally show ?thesis .
qed

text \<open>
  Claim C10. When the bus keys are distinct and hold the reference bus, at index \<open>i\<close> of
  the index map, inserting a value \<open>v\<close> into a vector \<open>x\<close> over the reference-eliminated
  ordering gives a vector over all buses with \<open>v\<close> at \<open>i\<close>, removing the reference bus
  from it gives \<open>x\<close> back, and the reference-eliminated key tuple is the key tuple with
  entry \<open>i\<close> deleted, the other keys in their order.
\<close>

theorem reference_bus_insert_remove:
  assumes d: "distinct (buses_keys eng)"
    and r: "reference_bus eng \<in> set (buses_keys eng)"
    and x: "length x = length (buses_keys_no_ref eng)"
  shows "\<exists>i y. busname_to_index_map eng (reference_bus eng) = Some i
           \<and> insert_reference_bus eng x v = Inr y
           \<and> length y = length (buses_keys eng) \<and> y ! i = v
           \<and> remove_reference_bus eng y = Inr x
           \<and> np_delete (buses_keys eng) i = Inr (buses_keys_no_ref eng)"
proof -
  let ?ks = "buses_keys eng"
  from r obtain i where i: "index_map ?ks (reference_bus eng) = Some i"
    using index_map_None[of ?ks "reference_bus eng"] by (cases "index_map ?ks (reference_bus eng)") auto
  from index_map_Some[OF i] have il: "i < length ?ks" and ir: "?ks ! i = reference_bus eng"
    by simp_all
  have nr: "buses_keys_no_ref eng = take i ?ks @ drop (Suc i) ?ks"
    using filter_neq_nth[OF d il] by (simp add: buses_keys_no_ref_def ir)
  have lx: "Suc (length x) = length ?ks"
    using il by (simp add: x nr)
  then have ix: "i \<le> length x" using il by simp
  define y where "y = take i x @ v # drop i x"
  have ins: "insert_reference_bus eng x v = Inr y"
    using ix by (simp add: insert_reference_bus_def busname_to_index_map_def i np_insert_def y_def)
  have ly: "length y = length ?ks" using lx ix by (simp add: y_def)
  have yi: "y ! i = v" using ix by (simp add: y_def nth_append)
  have rem: "remove_reference_bus eng y = Inr x"
    using ix by (simp add: remove_reference_bus_def busname_to_index_map_def i np_delete_def y_def min_def)
  have del: "np_delete ?ks i = Inr (buses_keys_no_ref eng)"
    using il by (simp add: np_delete_def nr)
  show ?thesis
    using i ins ly yi rem del by (simp add: busname_to_index_map_def)
qed

text \<open>The three-bus network, whose reference bus A is at index 0.\<close>

theorem reference_bus_insert_remove_witness:
  "distinct (buses_keys ex_engine)
   \<and> reference_bus ex_engine \<in> set (buses_keys ex_engine)
   \<and> length [7, 9 :: real] = length (buses_keys_no_ref ex_engine)
   \<and> insert_reference_bus ex_engine [7, 9] 5 = Inr [5, 7, 9]
   \<and> remove_reference_bus ex_engine [5, 7, 9] = Inr [7, 9]
   \<and> buses_keys_no_ref ex_engine = [''B'', ''C'']"
proof -
  have d: "distinct (buses_keys ex_engine)"
    and r: "reference_bus ex_engine \<in> set (buses_keys ex_engine)"
    and x: "length [7, 9 :: real] = length (buses_keys_no_ref ex_engine)"
    and n: "buses_keys_no_ref ex_engine = [''B'', ''C'']"
    by (simp_all add: ex_engine_def buses_keys_no_ref_def)
  have ins: "insert_reference_bus ex_engine [7, 9] 5 = Inr [5, 7, 9]"
    by (simp add: insert_reference_bus_def busname_to_index_map_def index_map_def
        ex_engine_def np_insert_def)
  from reference_bus_insert_remove[OF d r x, of 5] ins
  have "remove_reference_bus ex_engine [5, 7, 9] = Inr [7, 9]"
    by auto
  with d r x n ins show ?thesis by blast
qed

subsection \<open>Cached rows\<close>

lemma serve_hit: "cache_lookup st r = Some row \<Longrightarrow> serve eng st r = (Inr row, st)"
  by (cases r)
     (simp_all add: serve_def cache_lookup_def get_ptdf_row_def get_contingency_row_def
        get_interface_row_def)

lemma get_ptdf_row_caches:
  assumes "get_ptdf_row eng st b = (res, st')"
  shows "ptdf_rows st' = (case res of Inr row \<Rightarrow> (ptdf_rows st)(b \<mapsto> row) | Inl e \<Rightarrow> ptdf_rows st)"
    and "interface_rows st' = interface_rows st"
    and "contingency_rows st' = contingency_rows st"
  using assms
  by (auto simp: get_ptdf_row_def Let_def split: option.splits sum.splits)

lemma get_interface_row_caches:
  assumes "get_interface_row eng st i = (res, st')"
  shows "interface_rows st' =
           (case res of Inr row \<Rightarrow> (interface_rows st)(i \<mapsto> row) | Inl e \<Rightarrow> interface_rows st)"
    and "ptdf_rows st' = ptdf_rows st"
    and "contingency_rows st' = contingency_rows st"
  using assms
  by (auto simp: get_interface_row_def Let_def split: option.splits sum.splits)

lemma get_contingency_row_caches:
  assumes "get_contingency_row eng st cn bn = (res, st')"
  shows "contingency_rows st' =
           (case res of Inr row \<Rightarrow> (contingency_rows st)((cn, bn) \<mapsto> row)
                      | Inl e \<Rightarrow> contingency_rows st)"
    and "ptdf_rows st' = ptdf_rows st"
    and "interface_rows st' = interface_rows st"
  using assms
  by (auto simp: get_contingency_row_def Let_def split: option.splits sum.splits)

lemma serve_cache:
  assumes "serve eng st r = (res, st')"
  shows "cache_lookup st' =
           (case res of Inr row \<Rightarrow> (cache_lookup st)(r \<mapsto> row) | Inl e \<Rightarrow> cache_lookup st)"
proof (cases r)
  case (BranchRow b)
  with assms have g: "get_ptdf_row eng st b = (res, st')" by (simp add: serve_def)
  show ?thesis
    using get_ptdf_row_caches[OF g] unfolding BranchRow
    by (cases res) (auto simp: cache_lookup_def fun_eq_iff split: request.splits)
next
  case (ContingencyRow cn bn)
  with assms have g: "get_contingency_row eng st cn bn = (res, st')" by (simp add: serve_def)
  show ?thesis
    using get_contingency_row_caches[OF g] unfolding ContingencyRow
    by (cases res) (auto simp: cache_lookup_def fun_eq_iff split: request.splits)
next
  case (InterfaceRow i)
  with assms have g: "get_interface_row eng st i = (res, st')" by (simp add: serve_def)
  show ?thesis
    using get_interface_row_caches[OF g] unfolding InterfaceRow
    by (cases res) (auto simp: cache_lookup_def fun_eq_iff split: request.splits)
qed

lemma sp_row_toarray_length:
  "sp_wf A \<Longrightarrow> sp_row_toarray A i buf = Inr buf' \<Longrightarrow> length buf' = length buf"
  by (auto simp: sp_row_toarray_def sp_wf_def split: if_splits)

lemma sp_row_matmul_toarray_length:
  "sp_row_matmul_toarray A i P buf = Inr buf' \<Longrightarrow> length buf' = length buf"
  by (auto simp: sp_row_matmul_toarray_def sp_T_matvec_def split: if_splits)

lemma serve_buffer_length:
  assumes "sp_wf (B_dA eng)" "sp_wf (B_dA_I eng)" "serve eng st r = (res, st')"
  shows "length (bus_sensi_buffer st') = length (bus_sensi_buffer st)"
proof (cases r)
  case (BranchRow b)
  with assms show ?thesis
    by (auto simp: serve_def get_ptdf_row_def Let_def
        split: option.splits sum.splits dest: sp_row_toarray_length)
next
  case (ContingencyRow cn bn)
  with assms show ?thesis
    by (auto simp: serve_def get_contingency_row_def Let_def
        split: option.splits sum.splits dest: sp_row_matmul_toarray_length)
next
  case (InterfaceRow i)
  with assms show ?thesis
    by (auto simp: serve_def get_interface_row_def Let_def
        split: option.splits sum.splits dest: sp_row_toarray_length)
qed

lemma sp_row_toarray_buf:
  "length buf = length buf' \<Longrightarrow> sp_row_toarray A i buf = sp_row_toarray A i buf'"
  by (simp add: sp_row_toarray_def)

lemma sp_row_matmul_toarray_buf:
  "length buf = length buf' \<Longrightarrow> sp_row_matmul_toarray A i P buf = sp_row_matmul_toarray A i P buf'"
  by (simp add: sp_row_matmul_toarray_def)

lemma serve_miss_det:
  assumes "cache_lookup st r = None" "cache_lookup st' r = None"
    and "length (bus_sensi_buffer st) = length (bus_sensi_buffer st')"
  shows "fst (serve eng st r) = fst (serve eng st' r)"
proof (cases r)
  case (BranchRow b)
  with assms(1,2) have "ptdf_rows st b = None" "ptdf_rows st' b = None"
    by (simp_all add: cache_lookup_def)
  then show ?thesis
    using sp_row_toarray_buf[OF assms(3)]
    by (simp add: BranchRow serve_def get_ptdf_row_def Let_def split: option.splits sum.splits)
next
  case (ContingencyRow cn bn)
  with assms(1,2) have "contingency_rows st (cn, bn) = None" "contingency_rows st' (cn, bn) = None"
    by (simp_all add: cache_lookup_def)
  then show ?thesis
    using sp_row_matmul_toarray_buf[OF assms(3)]
    by (simp add: ContingencyRow serve_def get_contingency_row_def Let_def
        split: option.splits sum.splits)
next
  case (InterfaceRow i)
  with assms(1,2) have "interface_rows st i = None" "interface_rows st' i = None"
    by (simp_all add: cache_lookup_def)
  then show ?thesis
    using sp_row_toarray_buf[OF assms(3)]
    by (simp add: InterfaceRow serve_def get_interface_row_def Let_def split: option.splits sum.splits)
qed


lemma agrees_refl: "agrees eng st0 st0"
  by (simp add: agrees_def serve_hit)

lemma agrees_answer:
  assumes "agrees eng st0 st"
  shows "fst (serve eng st r) = fst (serve eng st0 r)"
proof (cases "cache_lookup st r")
  case None
  with assms have "cache_lookup st0 r = None"
    by (cases "cache_lookup st0 r") (auto simp: agrees_def)
  with None assms show ?thesis
    by (intro serve_miss_det) (simp_all add: agrees_def)
next
  case (Some row)
  with assms have "fst (serve eng st0 r) = Inr row" by (simp add: agrees_def)
  with serve_hit[OF Some] show ?thesis by simp
qed

lemma agrees_step:
  assumes wf: "sp_wf (B_dA eng)" "sp_wf (B_dA_I eng)"
    and a: "agrees eng st0 st" and s: "serve eng st r = (res, st')"
  shows "agrees eng st0 st'"
proof -
  have ans: "res = fst (serve eng st0 r)"
    using agrees_answer[OF a, of r] s by simp
  have len: "length (bus_sensi_buffer st') = length (bus_sensi_buffer st0)"
    using serve_buffer_length[OF wf s] a by (simp add: agrees_def)
  note c = serve_cache[OF s]
  have mono: "cache_lookup st' q = Some row" if "cache_lookup st0 q = Some row" for q row
  proof -
    from that a have old: "cache_lookup st q = Some row" by (simp add: agrees_def)
    show ?thesis
    proof (cases "q = r")
      case True
      with old serve_hit[of st r row eng] s have "res = Inr row" by simp
      with c old True show ?thesis by simp
    next
      case False
      with c old show ?thesis by (cases res) simp_all
    qed
  qed
  have val: "fst (serve eng st0 q) = Inr row" if "cache_lookup st' q = Some row" for q row
  proof (cases "q = r \<and> (\<exists>x. res = Inr x)")
    case True
    with c that have "res = Inr row" by auto
    with ans True show ?thesis by simp
  next
    case False
    with c that have "cache_lookup st q = Some row" by (cases res) (auto split: if_splits)
    with a show ?thesis by (simp add: agrees_def)
  qed
  show ?thesis using len mono val by (simp add: agrees_def)
qed

lemma run_requests_agrees:
  assumes wf: "sp_wf (B_dA eng)" "sp_wf (B_dA_I eng)"
  shows "agrees eng st0 st \<Longrightarrow> run_requests eng st rs = (ress, st') \<Longrightarrow>
         agrees eng st0 st'
         \<and> ress = map (\<lambda>r. fst (serve eng st0 r)) rs
         \<and> cache_lookup st' =
             (\<lambda>q. if q \<in> set rs
                  then (case fst (serve eng st0 q) of Inr row \<Rightarrow> Some row
                                                    | Inl e \<Rightarrow> cache_lookup st q)
                  else cache_lookup st q)"
proof (induction rs arbitrary: st ress st')
  case Nil
  then show ?case by simp
next
  case (Cons r rs)
  obtain res st1 where s: "serve eng st r = (res, st1)" by (cases "serve eng st r")
  obtain ress' st2 where run: "run_requests eng st1 rs = (ress', st2)"
    by (cases "run_requests eng st1 rs")
  from Cons.prems(2) s run have eq: "ress = res # ress'" "st2 = st'" by simp_all
  have a1: "agrees eng st0 st1" by (rule agrees_step[OF wf Cons.prems(1) s])
  have ans: "res = fst (serve eng st0 r)"
    using agrees_answer[OF Cons.prems(1), of r] s by simp
  note ih = Cons.IH[OF a1 run]
  note c = serve_cache[OF s]
  have "cache_lookup st2 q =
          (if q \<in> set (r # rs)
           then (case fst (serve eng st0 q) of Inr row \<Rightarrow> Some row | Inl e \<Rightarrow> cache_lookup st q)
           else cache_lookup st q)" for q
  proof (cases "q = r")
    case True
    have c': "cache_lookup st1 =
        (case fst (serve eng st0 r) of Inr row \<Rightarrow> (cache_lookup st)(r \<mapsto> row)
                                      | Inl e \<Rightarrow> cache_lookup st)"
      using c ans by simp
    show ?thesis
      unfolding True using ih c' by (cases "fst (serve eng st0 r)") simp_all
  next
    case False
    have "cache_lookup st1 q = cache_lookup st q"
      using c False by (cases res) simp_all
    with ih False show ?thesis by (simp split: sum.splits)
  qed
  then have "cache_lookup st2 =
          (\<lambda>q. if q \<in> set (r # rs)
           then (case fst (serve eng st0 q) of Inr row \<Rightarrow> Some row | Inl e \<Rightarrow> cache_lookup st q)
           else cache_lookup st q)" by (rule ext)
  with ih ans eq show ?case by simp
qed

lemma caches_of_lookup:
  assumes "cache_lookup st1 = cache_lookup st2"
  shows "ptdf_rows st1 = ptdf_rows st2" "interface_rows st1 = interface_rows st2"
    "contingency_rows st1 = contingency_rows st2"
proof -
  have "ptdf_rows st1 b = ptdf_rows st2 b" for b
    using fun_cong[OF assms, of "BranchRow b"] by (simp add: cache_lookup_def)
  then show "ptdf_rows st1 = ptdf_rows st2" by (rule ext)
  have "interface_rows st1 i = interface_rows st2 i" for i
    using fun_cong[OF assms, of "InterfaceRow i"] by (simp add: cache_lookup_def)
  then show "interface_rows st1 = interface_rows st2" by (rule ext)
  have "contingency_rows st1 k = contingency_rows st2 k" for k
    using fun_cong[OF assms, of "ContingencyRow (fst k) (snd k)"] by (simp add: cache_lookup_def)
  then show "contingency_rows st1 = contingency_rows st2" by (rule ext)
qed

lemma cache_lookup_init: "cache_lookup (init_state buf) r = None"
  by (simp add: cache_lookup_def init_state_def split: request.splits)

text \<open>
  Claim C9. Two engines built alike (one \<open>eng\<close>, empty caches, write buffers of one
  length whatever they hold) are sent two request sequences that are permutations of
  each other. The three caches are the same at the end, and a request gets the same
  answer wherever it stands in either sequence: the answer the engine gives to it when
  it is asked first.
\<close>

theorem cache_population_order_independent:
  assumes wf: "sp_wf (B_dA eng)" "sp_wf (B_dA_I eng)"
    and perm: "mset reqs1 = mset reqs2"
    and bufs: "length buf1 = length buf2"
    and run1: "run_requests eng (init_state buf1) reqs1 = (ress1, st1)"
    and run2: "run_requests eng (init_state buf2) reqs2 = (ress2, st2)"
  shows "ptdf_rows st1 = ptdf_rows st2
       \<and> interface_rows st1 = interface_rows st2
       \<and> contingency_rows st1 = contingency_rows st2
       \<and> length ress1 = length reqs1 \<and> length ress2 = length reqs2
       \<and> (\<forall>i < length reqs1. \<forall>j < length reqs2.
             reqs1 ! i = reqs2 ! j \<longrightarrow> ress1 ! i = ress2 ! j)
       \<and> (\<forall>i < length reqs1. ress1 ! i = fst (serve eng (init_state buf1) (reqs1 ! i)))"
proof -
  let ?s1 = "init_state buf1" and ?s2 = "init_state buf2"
  have same: "fst (serve eng ?s1 r) = fst (serve eng ?s2 r)" for r
    using bufs by (intro serve_miss_det) (simp_all add: cache_lookup_init, simp add: init_state_def)
  note r1 = run_requests_agrees[OF wf agrees_refl run1]
  note r2 = run_requests_agrees[OF wf agrees_refl run2]
  have sets: "set reqs1 = set reqs2" using perm by (rule mset_eq_setD)
  have "cache_lookup st1 q = cache_lookup st2 q" for q
  proof -
    from r1 have c1: "cache_lookup st1 q =
        (if q \<in> set reqs1
         then (case fst (serve eng ?s1 q) of Inr row \<Rightarrow> Some row | Inl e \<Rightarrow> cache_lookup ?s1 q)
         else cache_lookup ?s1 q)" by simp
    from r2 have c2: "cache_lookup st2 q =
        (if q \<in> set reqs2
         then (case fst (serve eng ?s2 q) of Inr row \<Rightarrow> Some row | Inl e \<Rightarrow> cache_lookup ?s2 q)
         else cache_lookup ?s2 q)" by simp
    show ?thesis
      unfolding c1 c2 sets same[of q] cache_lookup_init ..
  qed
  then have "cache_lookup st1 = cache_lookup st2" by (rule ext)
  note caches = caches_of_lookup[OF this]
  have e1: "ress1 = map (\<lambda>r. fst (serve eng ?s1 r)) reqs1" using r1 by simp
  have e2: "ress2 = map (\<lambda>r. fst (serve eng ?s1 r)) reqs2" using r2 same by simp
  show ?thesis using caches e1 e2 by simp
qed


lemma snd_run_requests_Cons:
  "snd (run_requests eng st (r # rs)) = snd (run_requests eng (snd (serve eng st r)) rs)"
  by (simp split: prod.splits)

lemma run_requests_keeps:
  "cache_lookup st r = Some row \<Longrightarrow> cache_lookup (snd (run_requests eng st rs)) r = Some row"
proof (induction rs arbitrary: st)
  case Nil
  then show ?case by simp
next
  case (Cons q rs)
  obtain res st1 where s: "serve eng st q = (res, st1)" by (cases "serve eng st q")
  have "cache_lookup st1 r = Some row"
  proof (cases "q = r")
    case True
    with serve_hit[OF Cons.prems, of eng] s show ?thesis using Cons.prems by simp
  next
    case False
    with serve_cache[OF s] Cons.prems show ?thesis by (cases res) simp_all
  qed
  from Cons.IH[OF this] s show ?case by (simp only: snd_run_requests_Cons snd_conv)
qed

lemma get_ptdf_row_returns:
  assumes reg: "b \<in> set (branches_keys eng)"
    and rows: "length (mrows (B_dA eng)) = length (branches_keys eng)"
    and buf: "ncols (B_dA eng) = length (bus_sensi_buffer st)"
  shows "\<exists>row st1 idx.
           get_ptdf_row eng st b = (Inr row, st1)
         \<and> branchname_to_index_map eng b = Some idx
         \<and> (ptdf_rows st b = None \<longrightarrow>
              row = np_neg (MLU_solve eng (mrows (B_dA eng) ! idx) Trans)
              \<and> n_solves st1 = Suc (n_solves st)
              \<and> ptdf_rows st1 = (ptdf_rows st)(b \<mapsto> row))
         \<and> (\<forall>st2. ptdf_rows st2 b = Some row \<longrightarrow> get_ptdf_row eng st2 b = (Inr row, st2))
         \<and> ptdf_rows st1 b = Some row"
proof -
  from reg obtain idx where idx: "branchname_to_index_map eng b = Some idx"
    using index_map_None[of "branches_keys eng" b]
    by (cases "index_map (branches_keys eng) b") (auto simp: branchname_to_index_map_def)
  then have il: "idx < length (mrows (B_dA eng))"
    using index_map_Some[of "branches_keys eng" b idx] rows
    by (simp add: branchname_to_index_map_def)
  obtain row st1 where g: "get_ptdf_row eng st b = (Inr row, st1)"
    and miss: "ptdf_rows st b = None \<longrightarrow>
              row = np_neg (MLU_solve eng (mrows (B_dA eng) ! idx) Trans)
              \<and> n_solves st1 = Suc (n_solves st)
              \<and> ptdf_rows st1 = (ptdf_rows st)(b \<mapsto> row)"
    using idx il buf
    by (cases "ptdf_rows st b") (simp_all add: get_ptdf_row_def sp_row_toarray_def Let_def)
  have c: "ptdf_rows st1 b = Some row"
    using get_ptdf_row_caches(1)[OF g] by simp
  have later: "\<forall>st2. ptdf_rows st2 b = Some row \<longrightarrow> get_ptdf_row eng st2 b = (Inr row, st2)"
    by (simp add: get_ptdf_row_def)
  show ?thesis
    by (rule exI[of _ row], rule exI[of _ st1], rule exI[of _ idx])
       (use g idx miss later c in simp)
qed

lemma get_interface_row_returns:
  assumes reg: "i \<in> set (interface_keys eng)"
    and rows: "length (mrows (B_dA_I eng)) = length (interface_keys eng)"
    and buf: "ncols (B_dA_I eng) = length (bus_sensi_buffer st)"
  shows "\<exists>row st1 idx.
           get_interface_row eng st i = (Inr row, st1)
         \<and> interfacename_to_index_map eng i = Some idx
         \<and> (interface_rows st i = None \<longrightarrow>
              row = MLU_solve eng (mrows (B_dA_I eng) ! idx) Trans
              \<and> n_solves st1 = Suc (n_solves st)
              \<and> interface_rows st1 = (interface_rows st)(i \<mapsto> row))
         \<and> (\<forall>st2. interface_rows st2 i = Some row \<longrightarrow> get_interface_row eng st2 i = (Inr row, st2))
         \<and> interface_rows st1 i = Some row"
proof -
  from reg obtain idx where idx: "interfacename_to_index_map eng i = Some idx"
    using index_map_None[of "interface_keys eng" i]
    by (cases "index_map (interface_keys eng) i") (auto simp: interfacename_to_index_map_def)
  then have il: "idx < length (mrows (B_dA_I eng))"
    using index_map_Some[of "interface_keys eng" i idx] rows
    by (simp add: interfacename_to_index_map_def)
  obtain row st1 where g: "get_interface_row eng st i = (Inr row, st1)"
    and miss: "interface_rows st i = None \<longrightarrow>
              row = MLU_solve eng (mrows (B_dA_I eng) ! idx) Trans
              \<and> n_solves st1 = Suc (n_solves st)
              \<and> interface_rows st1 = (interface_rows st)(i \<mapsto> row)"
    using idx il buf
    by (cases "interface_rows st i") (simp_all add: get_interface_row_def sp_row_toarray_def Let_def)
  have c: "interface_rows st1 i = Some row"
    using get_interface_row_caches(1)[OF g] by simp
  have later: "\<forall>st2. interface_rows st2 i = Some row \<longrightarrow> get_interface_row eng st2 i = (Inr row, st2)"
    by (simp add: get_interface_row_def)
  show ?thesis
    by (rule exI[of _ row], rule exI[of _ st1], rule exI[of _ idx])
       (use g idx miss later c in simp)
qed

lemma sp_T_matvec_Inr:
  "length (mrows A) = length v \<Longrightarrow>
   \<exists>w. sp_T_matvec A v = Inr w \<and> length w = ncols A"
  by (simp add: sp_T_matvec_def)

lemma sp_matvec_Inr:
  "ncols A = length v \<Longrightarrow> \<exists>w. sp_matvec A v = Inr w \<and> length w = length (mrows A)"
  by (simp add: sp_matvec_def)

lemma get_contingency_row_returns:
  assumes reg: "bn \<in> set (branches_keys eng)"
    and cc: "contingency_compensators eng cn = Some cc"
    and rows: "length (mrows (B_dA eng)) = length (branches_keys eng)"
    and wf: "sp_wf (B_dA eng)"
    and cwf: "compensator_wf eng (length (bus_sensi_buffer st)) cc"
  shows "\<exists>row st1 idx.
           get_contingency_row eng st cn bn = (Inr row, st1)
         \<and> branchname_to_index_map eng bn = Some idx
         \<and> (contingency_rows st (cn, bn) = None \<longrightarrow>
              (\<exists>buf WtF delF.
                   sp_T_matvec (cc_Pc cc) (mrows (B_dA eng) ! idx) = Inr buf
                 \<and> sp_T_matvec (cc_W cc) (cc_U_solve cc buf Trans) = Inr WtF
                 \<and> sp_matvec (cc_Wbar cc) (np_scale (- cc_c cc) WtF) = Inr delF
                 \<and> sp_T_matvec (cc_Pr cc)
                     (cc_L_solve cc (map2 (+) (cc_U_solve cc buf Trans) delF) Trans) = Inr row)
              \<and> n_solves st1 = Suc (Suc (n_solves st))
              \<and> contingency_rows st1 = (contingency_rows st)((cn, bn) \<mapsto> row))
         \<and> (\<forall>st2. contingency_rows st2 (cn, bn) = Some row \<longrightarrow>
                get_contingency_row eng st2 cn bn = (Inr row, st2))
         \<and> contingency_rows st1 (cn, bn) = Some row"
proof -
  let ?n = "length (bus_sensi_buffer st)"
  from reg obtain idx where idx: "branchname_to_index_map eng bn = Some idx"
    using index_map_None[of "branches_keys eng" bn]
    by (cases "index_map (branches_keys eng) bn") (auto simp: branchname_to_index_map_def)
  then have il: "idx < length (mrows (B_dA eng))"
    using index_map_Some[of "branches_keys eng" bn idx] rows
    by (simp add: branchname_to_index_map_def)
  have later: "get_contingency_row eng st2 cn bn = (Inr row, st2)"
    if "contingency_rows st2 (cn, bn) = Some row" for st2 row
    using that by (simp add: get_contingency_row_def)
  show ?thesis
  proof (cases "contingency_rows st (cn, bn)")
    case (Some row)
    then have g: "get_contingency_row eng st cn bn = (Inr row, st)"
      by (rule later)
    show ?thesis
      by (rule exI[of _ row], rule exI[of _ st], rule exI[of _ idx])
         (use g idx Some later in simp)
  next
    case None
    from cwf have pc: "length (mrows (cc_Pc cc)) = ncols (B_dA eng)" "ncols (cc_Pc cc) = ?n"
      and us: "\<And>v. length (cc_U_solve cc v Trans) = length v"
      and ls: "\<And>v. length (cc_L_solve cc v Trans) = length v"
      and w: "length (mrows (cc_W cc)) = ?n"
      and wb: "ncols (cc_Wbar cc) = ncols (cc_W cc)" "length (mrows (cc_Wbar cc)) = ?n"
      and pr: "length (mrows (cc_Pr cc)) = ?n"
      by (simp_all add: compensator_wf_def)
    have rl: "length (mrows (B_dA eng) ! idx) = ncols (B_dA eng)"
      using wf il by (simp add: sp_wf_def)
    from sp_T_matvec_Inr[of "cc_Pc cc" "mrows (B_dA eng) ! idx"] pc rl
    obtain buf where buf: "sp_T_matvec (cc_Pc cc) (mrows (B_dA eng) ! idx) = Inr buf"
      and bl: "length buf = ?n" by auto
    have tm: "sp_row_matmul_toarray (B_dA eng) idx (cc_Pc cc) (bus_sensi_buffer st) = Inr buf"
      using il pc buf by (simp add: sp_row_matmul_toarray_def)
    let ?hatF = "cc_U_solve cc buf Trans"
    have hl: "length ?hatF = ?n" using us bl by simp
    from sp_T_matvec_Inr[of "cc_W cc" ?hatF] w hl
    obtain WtF where WtF: "sp_T_matvec (cc_W cc) ?hatF = Inr WtF"
      and wl: "length WtF = ncols (cc_W cc)" by auto
    from sp_matvec_Inr[of "cc_Wbar cc" "np_scale (- cc_c cc) WtF"] wb wl
    obtain delF where delF: "sp_matvec (cc_Wbar cc) (np_scale (- cc_c cc) WtF) = Inr delF"
      and dl: "length delF = ?n" by (auto simp: np_scale_def)
    let ?rhs = "map2 (+) ?hatF delF"
    have add: "np_add ?hatF delF = Inr ?rhs" using hl dl by (simp add: np_add_def)
    have rhs: "compensated_rhs cc ?hatF = Inr ?rhs"
      using WtF delF add by (simp add: compensated_rhs_def)
    have yl: "length (cc_L_solve cc ?rhs Trans) = ?n" using ls hl dl by simp
    from sp_T_matvec_Inr[of "cc_Pr cc" "cc_L_solve cc ?rhs Trans"] pr yl
    obtain row where row: "sp_T_matvec (cc_Pr cc) (cc_L_solve cc ?rhs Trans) = Inr row"
      by auto
    obtain st1 where g: "get_contingency_row eng st cn bn = (Inr row, st1)"
      and n: "n_solves st1 = Suc (Suc (n_solves st))"
      using None idx cc tm rhs row by (simp add: get_contingency_row_def Let_def)
    have c: "contingency_rows st1 = (contingency_rows st)((cn, bn) \<mapsto> row)"
      using get_contingency_row_caches(1)[OF g] by simp
    have ex: "\<exists>buf WtF delF.
                   sp_T_matvec (cc_Pc cc) (mrows (B_dA eng) ! idx) = Inr buf
                 \<and> sp_T_matvec (cc_W cc) (cc_U_solve cc buf Trans) = Inr WtF
                 \<and> sp_matvec (cc_Wbar cc) (np_scale (- cc_c cc) WtF) = Inr delF
                 \<and> sp_T_matvec (cc_Pr cc)
                     (cc_L_solve cc (map2 (+) (cc_U_solve cc buf Trans) delF) Trans) = Inr row"
      by (rule exI[of _ buf], rule exI[of _ WtF], rule exI[of _ delF])
         (use buf WtF delF row in simp)
    show ?thesis
      by (rule exI[of _ row], rule exI[of _ st1], rule exI[of _ idx])
         (use g idx n c ex later in simp)
  qed
qed

text \<open>
  Claim C4, as amended. A request for the row of a registered key returns a row, for
  matrices of the shapes of the factorization. On a miss the row of a branch is the
  negated transpose solve of \<^verbatim>\<open>MLU\<close> on the branch's row of \<^verbatim>\<open>B_dA\<close>, with one solve; the
  row of an interface is the transpose solve of \<^verbatim>\<open>MLU\<close> on the interface's row of
  \<^verbatim>\<open>B_dA_I\<close>, not negated, with one solve; the row of a branch under a contingency is
  \<^verbatim>\<open>Pr.T @ L.solve(hatF + Wbar @ (-c * (W.T @ hatF)), 'T')\<close> for
  \<^verbatim>\<open>hatF = U.solve(Pc.T @ B_dA[branch], 'T')\<close>, with two solves of the compensator's
  factors and none of \<^verbatim>\<open>MLU\<close>. The row is stored under the key. A second request returns
  the same row and leaves the state, and so the caches and the solve counter, as they
  are; so does a request for it after any further requests. For a request of any kind,
  one that returned a row returns it again from the state it left, which it leaves as it
  is.
\<close>

theorem cached_row_idempotent:
  shows "(\<forall>b. b \<in> set (branches_keys eng) \<longrightarrow>
              length (mrows (B_dA eng)) = length (branches_keys eng) \<longrightarrow>
              ncols (B_dA eng) = length (bus_sensi_buffer st) \<longrightarrow>
            (\<exists>row st1 idx.
               get_ptdf_row eng st b = (Inr row, st1)
             \<and> branchname_to_index_map eng b = Some idx
             \<and> (ptdf_rows st b = None \<longrightarrow>
                  row = np_neg (MLU_solve eng (mrows (B_dA eng) ! idx) Trans)
                  \<and> n_solves st1 = Suc (n_solves st)
                  \<and> ptdf_rows st1 = (ptdf_rows st)(b \<mapsto> row))
             \<and> get_ptdf_row eng st1 b = (Inr row, st1)
             \<and> (\<forall>reqs. get_ptdf_row eng (snd (run_requests eng st1 reqs)) b
                          = (Inr row, snd (run_requests eng st1 reqs)))))
       \<and> (\<forall>i. i \<in> set (interface_keys eng) \<longrightarrow>
              length (mrows (B_dA_I eng)) = length (interface_keys eng) \<longrightarrow>
              ncols (B_dA_I eng) = length (bus_sensi_buffer st) \<longrightarrow>
            (\<exists>row st1 idx.
               get_interface_row eng st i = (Inr row, st1)
             \<and> interfacename_to_index_map eng i = Some idx
             \<and> (interface_rows st i = None \<longrightarrow>
                  row = MLU_solve eng (mrows (B_dA_I eng) ! idx) Trans
                  \<and> n_solves st1 = Suc (n_solves st)
                  \<and> interface_rows st1 = (interface_rows st)(i \<mapsto> row))
             \<and> get_interface_row eng st1 i = (Inr row, st1)
             \<and> (\<forall>reqs. get_interface_row eng (snd (run_requests eng st1 reqs)) i
                          = (Inr row, snd (run_requests eng st1 reqs)))))
       \<and> (\<forall>cn bn cc. bn \<in> set (branches_keys eng) \<longrightarrow>
              contingency_compensators eng cn = Some cc \<longrightarrow>
              length (mrows (B_dA eng)) = length (branches_keys eng) \<longrightarrow>
              sp_wf (B_dA eng) \<longrightarrow>
              compensator_wf eng (length (bus_sensi_buffer st)) cc \<longrightarrow>
            (\<exists>row st1 idx.
               get_contingency_row eng st cn bn = (Inr row, st1)
             \<and> branchname_to_index_map eng bn = Some idx
             \<and> (contingency_rows st (cn, bn) = None \<longrightarrow>
                  (\<exists>buf WtF delF.
                       sp_T_matvec (cc_Pc cc) (mrows (B_dA eng) ! idx) = Inr buf
                     \<and> sp_T_matvec (cc_W cc) (cc_U_solve cc buf Trans) = Inr WtF
                     \<and> sp_matvec (cc_Wbar cc) (np_scale (- cc_c cc) WtF) = Inr delF
                     \<and> sp_T_matvec (cc_Pr cc)
                         (cc_L_solve cc (map2 (+) (cc_U_solve cc buf Trans) delF) Trans) = Inr row)
                  \<and> n_solves st1 = Suc (Suc (n_solves st))
                  \<and> contingency_rows st1 = (contingency_rows st)((cn, bn) \<mapsto> row))
             \<and> get_contingency_row eng st1 cn bn = (Inr row, st1)
             \<and> (\<forall>reqs. get_contingency_row eng (snd (run_requests eng st1 reqs)) cn bn
                          = (Inr row, snd (run_requests eng st1 reqs)))))
       \<and> (\<forall>r row' st'. serve eng st r = (Inr row', st') \<longrightarrow>
                            serve eng st' r = (Inr row', st'))"
proof -
  have any: "\<forall>r row' st'. serve eng st r = (Inr row', st') \<longrightarrow>
                            serve eng st' r = (Inr row', st')"
  proof (intro allI impI)
    fix r row' st'
    assume s: "serve eng st r = (Inr row', st')"
    from serve_cache[OF s] have "cache_lookup st' r = Some row'" by simp
    then show "serve eng st' r = (Inr row', st')" by (rule serve_hit)
  qed
  have br: "\<forall>b. b \<in> set (branches_keys eng) \<longrightarrow>
              length (mrows (B_dA eng)) = length (branches_keys eng) \<longrightarrow>
              ncols (B_dA eng) = length (bus_sensi_buffer st) \<longrightarrow>
            (\<exists>row st1 idx.
               get_ptdf_row eng st b = (Inr row, st1)
             \<and> branchname_to_index_map eng b = Some idx
             \<and> (ptdf_rows st b = None \<longrightarrow>
                  row = np_neg (MLU_solve eng (mrows (B_dA eng) ! idx) Trans)
                  \<and> n_solves st1 = Suc (n_solves st)
                  \<and> ptdf_rows st1 = (ptdf_rows st)(b \<mapsto> row))
             \<and> get_ptdf_row eng st1 b = (Inr row, st1)
             \<and> (\<forall>reqs. get_ptdf_row eng (snd (run_requests eng st1 reqs)) b
                          = (Inr row, snd (run_requests eng st1 reqs))))"
  proof (rule allI, rule impI, rule impI, rule impI)
    fix b
    assume reg: "b \<in> set (branches_keys eng)"
      and rows: "length (mrows (B_dA eng)) = length (branches_keys eng)"
      and buf: "ncols (B_dA eng) = length (bus_sensi_buffer st)"
    from get_ptdf_row_returns[OF reg rows buf]
    obtain row st1 idx where g: "get_ptdf_row eng st b = (Inr row, st1)"
      and idx: "branchname_to_index_map eng b = Some idx"
      and miss: "ptdf_rows st b = None \<longrightarrow>
                row = np_neg (MLU_solve eng (mrows (B_dA eng) ! idx) Trans)
                \<and> n_solves st1 = Suc (n_solves st)
                \<and> ptdf_rows st1 = (ptdf_rows st)(b \<mapsto> row)"
      and later: "\<forall>st2. ptdf_rows st2 b = Some row \<longrightarrow> get_ptdf_row eng st2 b = (Inr row, st2)"
      and c: "ptdf_rows st1 b = Some row"
      by (elim exE conjE) (rule that)
    have c': "cache_lookup st1 (BranchRow b) = Some row"
      using c by (simp add: cache_lookup_def)
    have again: "get_ptdf_row eng st1 b = (Inr row, st1)"
      using later c by blast
    have all: "\<forall>reqs. get_ptdf_row eng (snd (run_requests eng st1 reqs)) b
                        = (Inr row, snd (run_requests eng st1 reqs))"
    proof
      fix reqs
      from run_requests_keeps[OF c', of eng reqs]
      have "ptdf_rows (snd (run_requests eng st1 reqs)) b = Some row"
        by (simp add: cache_lookup_def)
      with later show "get_ptdf_row eng (snd (run_requests eng st1 reqs)) b
                        = (Inr row, snd (run_requests eng st1 reqs))" by blast
    qed
    show "\<exists>row st1 idx.
               get_ptdf_row eng st b = (Inr row, st1)
             \<and> branchname_to_index_map eng b = Some idx
             \<and> (ptdf_rows st b = None \<longrightarrow>
                  row = np_neg (MLU_solve eng (mrows (B_dA eng) ! idx) Trans)
                  \<and> n_solves st1 = Suc (n_solves st)
                  \<and> ptdf_rows st1 = (ptdf_rows st)(b \<mapsto> row))
             \<and> get_ptdf_row eng st1 b = (Inr row, st1)
             \<and> (\<forall>reqs. get_ptdf_row eng (snd (run_requests eng st1 reqs)) b
                          = (Inr row, snd (run_requests eng st1 reqs)))"
      by (rule exI[of _ row], rule exI[of _ st1], rule exI[of _ idx])
         (use g idx miss again all in simp)
  qed
  have ir: "\<forall>i. i \<in> set (interface_keys eng) \<longrightarrow>
              length (mrows (B_dA_I eng)) = length (interface_keys eng) \<longrightarrow>
              ncols (B_dA_I eng) = length (bus_sensi_buffer st) \<longrightarrow>
            (\<exists>row st1 idx.
               get_interface_row eng st i = (Inr row, st1)
             \<and> interfacename_to_index_map eng i = Some idx
             \<and> (interface_rows st i = None \<longrightarrow>
                  row = MLU_solve eng (mrows (B_dA_I eng) ! idx) Trans
                  \<and> n_solves st1 = Suc (n_solves st)
                  \<and> interface_rows st1 = (interface_rows st)(i \<mapsto> row))
             \<and> get_interface_row eng st1 i = (Inr row, st1)
             \<and> (\<forall>reqs. get_interface_row eng (snd (run_requests eng st1 reqs)) i
                          = (Inr row, snd (run_requests eng st1 reqs))))"
  proof (rule allI, rule impI, rule impI, rule impI)
    fix i
    assume reg: "i \<in> set (interface_keys eng)"
      and rows: "length (mrows (B_dA_I eng)) = length (interface_keys eng)"
      and buf: "ncols (B_dA_I eng) = length (bus_sensi_buffer st)"
    from get_interface_row_returns[OF reg rows buf]
    obtain row st1 idx where g: "get_interface_row eng st i = (Inr row, st1)"
      and idx: "interfacename_to_index_map eng i = Some idx"
      and miss: "interface_rows st i = None \<longrightarrow>
                row = MLU_solve eng (mrows (B_dA_I eng) ! idx) Trans
                \<and> n_solves st1 = Suc (n_solves st)
                \<and> interface_rows st1 = (interface_rows st)(i \<mapsto> row)"
      and later: "\<forall>st2. interface_rows st2 i = Some row \<longrightarrow>
                    get_interface_row eng st2 i = (Inr row, st2)"
      and c: "interface_rows st1 i = Some row"
      by (elim exE conjE) (rule that)
    have c': "cache_lookup st1 (InterfaceRow i) = Some row"
      using c by (simp add: cache_lookup_def)
    have again: "get_interface_row eng st1 i = (Inr row, st1)"
      using later c by blast
    have all: "\<forall>reqs. get_interface_row eng (snd (run_requests eng st1 reqs)) i
                        = (Inr row, snd (run_requests eng st1 reqs))"
    proof
      fix reqs
      from run_requests_keeps[OF c', of eng reqs]
      have "interface_rows (snd (run_requests eng st1 reqs)) i = Some row"
        by (simp add: cache_lookup_def)
      with later show "get_interface_row eng (snd (run_requests eng st1 reqs)) i
                        = (Inr row, snd (run_requests eng st1 reqs))" by blast
    qed
    show "\<exists>row st1 idx.
               get_interface_row eng st i = (Inr row, st1)
             \<and> interfacename_to_index_map eng i = Some idx
             \<and> (interface_rows st i = None \<longrightarrow>
                  row = MLU_solve eng (mrows (B_dA_I eng) ! idx) Trans
                  \<and> n_solves st1 = Suc (n_solves st)
                  \<and> interface_rows st1 = (interface_rows st)(i \<mapsto> row))
             \<and> get_interface_row eng st1 i = (Inr row, st1)
             \<and> (\<forall>reqs. get_interface_row eng (snd (run_requests eng st1 reqs)) i
                          = (Inr row, snd (run_requests eng st1 reqs)))"
      by (rule exI[of _ row], rule exI[of _ st1], rule exI[of _ idx])
         (use g idx miss again all in simp)
  qed
  have cr: "\<forall>cn bn cc. bn \<in> set (branches_keys eng) \<longrightarrow>
              contingency_compensators eng cn = Some cc \<longrightarrow>
              length (mrows (B_dA eng)) = length (branches_keys eng) \<longrightarrow>
              sp_wf (B_dA eng) \<longrightarrow>
              compensator_wf eng (length (bus_sensi_buffer st)) cc \<longrightarrow>
            (\<exists>row st1 idx.
               get_contingency_row eng st cn bn = (Inr row, st1)
             \<and> branchname_to_index_map eng bn = Some idx
             \<and> (contingency_rows st (cn, bn) = None \<longrightarrow>
                  (\<exists>buf WtF delF.
                       sp_T_matvec (cc_Pc cc) (mrows (B_dA eng) ! idx) = Inr buf
                     \<and> sp_T_matvec (cc_W cc) (cc_U_solve cc buf Trans) = Inr WtF
                     \<and> sp_matvec (cc_Wbar cc) (np_scale (- cc_c cc) WtF) = Inr delF
                     \<and> sp_T_matvec (cc_Pr cc)
                         (cc_L_solve cc (map2 (+) (cc_U_solve cc buf Trans) delF) Trans) = Inr row)
                  \<and> n_solves st1 = Suc (Suc (n_solves st))
                  \<and> contingency_rows st1 = (contingency_rows st)((cn, bn) \<mapsto> row))
             \<and> get_contingency_row eng st1 cn bn = (Inr row, st1)
             \<and> (\<forall>reqs. get_contingency_row eng (snd (run_requests eng st1 reqs)) cn bn
                          = (Inr row, snd (run_requests eng st1 reqs))))"
  proof (rule allI, rule allI, rule allI, rule impI, rule impI, rule impI, rule impI, rule impI)
    fix cn bn cc
    assume reg: "bn \<in> set (branches_keys eng)"
      and cc: "contingency_compensators eng cn = Some cc"
      and rows: "length (mrows (B_dA eng)) = length (branches_keys eng)"
      and wf: "sp_wf (B_dA eng)"
      and cwf: "compensator_wf eng (length (bus_sensi_buffer st)) cc"
    from get_contingency_row_returns[OF reg cc rows wf cwf]
    obtain row st1 idx where g: "get_contingency_row eng st cn bn = (Inr row, st1)"
      and idx: "branchname_to_index_map eng bn = Some idx"
      and miss: "contingency_rows st (cn, bn) = None \<longrightarrow>
                  (\<exists>buf WtF delF.
                       sp_T_matvec (cc_Pc cc) (mrows (B_dA eng) ! idx) = Inr buf
                     \<and> sp_T_matvec (cc_W cc) (cc_U_solve cc buf Trans) = Inr WtF
                     \<and> sp_matvec (cc_Wbar cc) (np_scale (- cc_c cc) WtF) = Inr delF
                     \<and> sp_T_matvec (cc_Pr cc)
                         (cc_L_solve cc (map2 (+) (cc_U_solve cc buf Trans) delF) Trans) = Inr row)
                  \<and> n_solves st1 = Suc (Suc (n_solves st))
                  \<and> contingency_rows st1 = (contingency_rows st)((cn, bn) \<mapsto> row)"
      and later: "\<forall>st2. contingency_rows st2 (cn, bn) = Some row \<longrightarrow>
                    get_contingency_row eng st2 cn bn = (Inr row, st2)"
      and c: "contingency_rows st1 (cn, bn) = Some row"
      by (elim exE conjE) (rule that)
    have c': "cache_lookup st1 (ContingencyRow cn bn) = Some row"
      using c by (simp add: cache_lookup_def)
    have again: "get_contingency_row eng st1 cn bn = (Inr row, st1)"
      using later c by blast
    have all: "\<forall>reqs. get_contingency_row eng (snd (run_requests eng st1 reqs)) cn bn
                        = (Inr row, snd (run_requests eng st1 reqs))"
    proof
      fix reqs
      from run_requests_keeps[OF c', of eng reqs]
      have "contingency_rows (snd (run_requests eng st1 reqs)) (cn, bn) = Some row"
        by (simp add: cache_lookup_def)
      with later show "get_contingency_row eng (snd (run_requests eng st1 reqs)) cn bn
                        = (Inr row, snd (run_requests eng st1 reqs))" by blast
    qed
    show "\<exists>row st1 idx.
               get_contingency_row eng st cn bn = (Inr row, st1)
             \<and> branchname_to_index_map eng bn = Some idx
             \<and> (contingency_rows st (cn, bn) = None \<longrightarrow>
                  (\<exists>buf WtF delF.
                       sp_T_matvec (cc_Pc cc) (mrows (B_dA eng) ! idx) = Inr buf
                     \<and> sp_T_matvec (cc_W cc) (cc_U_solve cc buf Trans) = Inr WtF
                     \<and> sp_matvec (cc_Wbar cc) (np_scale (- cc_c cc) WtF) = Inr delF
                     \<and> sp_T_matvec (cc_Pr cc)
                         (cc_L_solve cc (map2 (+) (cc_U_solve cc buf Trans) delF) Trans) = Inr row)
                  \<and> n_solves st1 = Suc (Suc (n_solves st))
                  \<and> contingency_rows st1 = (contingency_rows st)((cn, bn) \<mapsto> row))
             \<and> get_contingency_row eng st1 cn bn = (Inr row, st1)
             \<and> (\<forall>reqs. get_contingency_row eng (snd (run_requests eng st1 reqs)) cn bn
                          = (Inr row, snd (run_requests eng st1 reqs)))"
      by (rule exI[of _ row], rule exI[of _ st1], rule exI[of _ idx])
         (use g idx miss again all in simp)
  qed
  show ?thesis
    by (rule conjI[OF br conjI[OF ir conjI[OF cr any]]])
qed

lemma serve_unregistered:
  assumes "\<not> registered eng r" "cache_lookup st r = None"
  shows "serve eng st r =
           (Inl (KeyError (case r of
                   BranchRow b \<Rightarrow> b
                 | ContingencyRow cn bn \<Rightarrow> if bn \<in> set (branches_keys eng) then cn else bn
                 | InterfaceRow i \<Rightarrow> i)), st)"
proof (cases r)
  case (BranchRow b)
  with assms have "ptdf_rows st b = None" "index_map (branches_keys eng) b = None"
    by (simp_all add: cache_lookup_def registered_def index_map_None)
  then show ?thesis
    by (simp add: BranchRow serve_def get_ptdf_row_def branchname_to_index_map_def)
next
  case (ContingencyRow cn bn)
  with assms have miss: "contingency_rows st (cn, bn) = None"
    and nr: "bn \<notin> set (branches_keys eng) \<or> contingency_compensators eng cn = None"
    by (auto simp: cache_lookup_def registered_def)
  show ?thesis
  proof (cases "bn \<in> set (branches_keys eng)")
    case True
    then obtain idx where "index_map (branches_keys eng) bn = Some idx"
      using index_map_None[of "branches_keys eng" bn]
      by (cases "index_map (branches_keys eng) bn") auto
    with True nr miss show ?thesis
      by (simp add: ContingencyRow serve_def get_contingency_row_def branchname_to_index_map_def)
  next
    case False
    then have "index_map (branches_keys eng) bn = None" by (simp add: index_map_None)
    with False miss show ?thesis
      by (simp add: ContingencyRow serve_def get_contingency_row_def branchname_to_index_map_def)
  qed
next
  case (InterfaceRow i)
  with assms have "interface_rows st i = None" "index_map (interface_keys eng) i = None"
    by (simp_all add: cache_lookup_def registered_def index_map_None)
  then show ?thesis
    by (simp add: InterfaceRow serve_def get_interface_row_def interfacename_to_index_map_def)
qed

lemma run_requests_registered:
  "(\<forall>r row. cache_lookup st r = Some row \<longrightarrow> registered eng r) \<Longrightarrow>
   cache_lookup (snd (run_requests eng st rs)) q = Some row \<Longrightarrow> registered eng q"
proof (induction rs arbitrary: st)
  case Nil
  then show ?case by simp
next
  case (Cons r rs)
  obtain res st1 where s: "serve eng st r = (res, st1)" by (cases "serve eng st r")
  have inv: "\<forall>q row. cache_lookup st1 q = Some row \<longrightarrow> registered eng q"
  proof (intro allI impI)
    fix q row assume q: "cache_lookup st1 q = Some row"
    show "registered eng q"
    proof (cases "cache_lookup st q")
      case (Some a)
      with Cons.prems(1) show ?thesis by blast
    next
      case None
      with q serve_cache[OF s] have qr: "q = r" and res: "res = Inr row"
        by (cases res; auto split: if_splits)+
      show ?thesis
      proof (rule ccontr)
        assume "\<not> registered eng q"
        from serve_unregistered[OF this None] s qr res show False by simp
      qed
    qed
  qed
  from Cons.prems(2) s have "cache_lookup (snd (run_requests eng st1 rs)) q = Some row"
    by (simp only: snd_run_requests_Cons snd_conv)
  from Cons.IH[OF inv this] show ?case .
qed

text \<open>
  Claim C8. In a state reached from the constructor's by any requests, a request whose
  key is not registered raises \<^verbatim>\<open>KeyError\<close> on that key (the exception the code has for
  both of the specification's unknown-key errors; for a contingency row the branch name
  is looked up first) and returns the state it was given, so the requests that follow
  run as if it had not been made.
\<close>

theorem unknown_key_fails:
  assumes reach: "st = snd (run_requests eng (init_state buf) reqs)"
    and unreg: "\<not> registered eng r"
  shows "serve eng st r =
           (Inl (KeyError (case r of
                   BranchRow b \<Rightarrow> b
                 | ContingencyRow cn bn \<Rightarrow> if bn \<in> set (branches_keys eng) then cn else bn
                 | InterfaceRow i \<Rightarrow> i)), st)
       \<and> (\<forall>rs. run_requests eng st (r # rs) =
                 (fst (serve eng st r) # fst (run_requests eng st rs),
                  snd (run_requests eng st rs)))"
proof -
  have "cache_lookup st r = None"
  proof (cases "cache_lookup st r")
    case (Some row)
    have "\<forall>r row. cache_lookup (init_state buf) r = Some row \<longrightarrow> registered eng r"
      by (simp add: cache_lookup_init)
    from run_requests_registered[OF this Some[unfolded reach]] unreg show ?thesis by simp
  qed simp
  from serve_unregistered[OF unreg this]
  show ?thesis by (simp split: prod.splits)
qed


lemma serve_row_lengths:
  assumes wf: "sp_wf (B_dA eng)" "sp_wf (B_dA_I eng)"
    and solve: "\<forall>v. length (MLU_solve eng v Trans) = length v"
    and inv: "\<forall>b row. ptdf_rows st b = Some row \<longrightarrow> length row = length (bus_sensi_buffer st)"
    and s: "serve eng st r = (res, st')"
  shows "\<forall>b row. ptdf_rows st' b = Some row \<longrightarrow> length row = length (bus_sensi_buffer st')"
proof -
  note len = serve_buffer_length[OF wf s]
  show ?thesis
  proof (cases r)
    case (BranchRow b)
    with s have g: "get_ptdf_row eng st b = (res, st')" by (simp add: serve_def)
    show ?thesis
    proof (cases "ptdf_rows st b")
      case (Some row)
      with g have "st' = st" by (simp add: get_ptdf_row_def)
      with inv show ?thesis by simp
    next
      case None
      show ?thesis
      proof (cases res)
        case (Inl e)
        with get_ptdf_row_caches(1)[OF g] inv len show ?thesis by simp
      next
        case (Inr row)
        with g None obtain idx buf where "sp_row_toarray (B_dA eng) idx (bus_sensi_buffer st) = Inr buf"
          and row: "row = np_neg (MLU_solve eng buf Trans)"
          and st': "bus_sensi_buffer st' = buf"
          by (auto simp: get_ptdf_row_def Let_def split: option.splits sum.splits)
        then have "length row = length (bus_sensi_buffer st')"
          using solve by (simp add: np_neg_def)
        with get_ptdf_row_caches(1)[OF g] Inr inv len show ?thesis by auto
      qed
    qed
  next
    case (ContingencyRow cn bn)
    with s have "get_contingency_row eng st cn bn = (res, st')" by (simp add: serve_def)
    from get_contingency_row_caches(2)[OF this] inv len show ?thesis by simp
  next
    case (InterfaceRow i)
    with s have "get_interface_row eng st i = (res, st')" by (simp add: serve_def)
    from get_interface_row_caches(2)[OF this] inv len show ?thesis by simp
  qed
qed

lemma run_requests_row_lengths:
  assumes wf: "sp_wf (B_dA eng)" "sp_wf (B_dA_I eng)"
    and solve: "\<forall>v. length (MLU_solve eng v Trans) = length v"
  shows "\<forall>b row. ptdf_rows st b = Some row \<longrightarrow> length row = length (bus_sensi_buffer st) \<Longrightarrow>
         (\<forall>b row. ptdf_rows (snd (run_requests eng st rs)) b = Some row \<longrightarrow>
            length row = length (bus_sensi_buffer st))
         \<and> length (bus_sensi_buffer (snd (run_requests eng st rs))) = length (bus_sensi_buffer st)"
proof (induction rs arbitrary: st)
  case Nil
  then show ?case by simp
next
  case (Cons r rs)
  obtain res st1 where s: "serve eng st r = (res, st1)" by (cases "serve eng st r")
  note len = serve_buffer_length[OF wf s]
  note inv1 = serve_row_lengths[OF wf solve Cons.prems s]
  from Cons.IH[OF inv1] len s show ?case
    by (simp only: snd_run_requests_Cons snd_conv) simp
qed

text \<open>
  Claim C3. For a registered branch, in a state reached from the constructor's by any
  requests, \<^verbatim>\<open>get_branch_ptdf_const\<close> returns the product of the row that \<^verbatim>\<open>_get_ptdf_row\<close>
  returns with \<^verbatim>\<open>phi_adjust_array\<close>, plus the entry of the branch in
  \<^verbatim>\<open>phase_shift_flow_adjuster_array\<close>, in exact arithmetic.
\<close>

theorem branch_ptdf_const_consistent:
  assumes reg: "b \<in> set (branches_keys eng)"
    and rows: "length (mrows (B_dA eng)) = length (branches_keys eng)"
    and wf: "sp_wf (B_dA eng)" "sp_wf (B_dA_I eng)"
    and solve: "\<forall>v. length (MLU_solve eng v Trans) = length v"
    and phi: "length (phi_adjust_array eng) = ncols (B_dA eng)"
    and ps: "length (phase_shift_flow_adjuster_array eng) = length (branches_keys eng)"
    and buf: "length buf = ncols (B_dA eng)"
    and reach: "st = snd (run_requests eng (init_state buf) reqs)"
  shows "\<exists>row st1 idx.
           get_ptdf_row eng st b = (Inr row, st1)
         \<and> get_ptdf_row eng st1 b = (Inr row, st1)
         \<and> branchname_to_index_map eng b = Some idx
         \<and> length row = length (phi_adjust_array eng)
         \<and> idx < length (phase_shift_flow_adjuster_array eng)
         \<and> get_branch_ptdf_const eng st b =
             (Inr (sum_list (map2 (*) row (phi_adjust_array eng))
                   + phase_shift_flow_adjuster_array eng ! idx), st1)
         \<and> get_branch_ptdf_const eng st1 b =
             (Inr (sum_list (map2 (*) row (phi_adjust_array eng))
                   + phase_shift_flow_adjuster_array eng ! idx), st1)"
proof -
  have init: "\<forall>b row. ptdf_rows (init_state buf) b = Some row \<longrightarrow>
                length row = length (bus_sensi_buffer (init_state buf))"
    by (simp add: init_state_def)
  from run_requests_row_lengths[OF wf solve init, of reqs]
  have inv: "\<forall>b row. ptdf_rows st b = Some row \<longrightarrow> length row = length (bus_sensi_buffer st)"
    and bl: "length (bus_sensi_buffer st) = ncols (B_dA eng)"
    using buf by (simp_all add: reach init_state_def)
  from get_ptdf_row_returns[OF reg rows bl[symmetric]]
  obtain row st1 idx where g: "get_ptdf_row eng st b = (Inr row, st1)"
    and idx: "branchname_to_index_map eng b = Some idx"
    and later: "\<forall>st2. ptdf_rows st2 b = Some row \<longrightarrow> get_ptdf_row eng st2 b = (Inr row, st2)"
    and c: "ptdf_rows st1 b = Some row"
    by (elim exE conjE) (rule that)
  from later c have again: "get_ptdf_row eng st1 b = (Inr row, st1)" by blast
  have "serve eng st (BranchRow b) = (Inr row, st1)" using g by (simp add: serve_def)
  from serve_row_lengths[OF wf solve inv this] serve_buffer_length[OF wf this]
  have "\<forall>b row. ptdf_rows st1 b = Some row \<longrightarrow> length row = ncols (B_dA eng)"
    using bl by simp
  moreover have "ptdf_rows st1 b = Some row"
    using get_ptdf_row_caches(1)[OF g] by simp
  ultimately have lr: "length row = length (phi_adjust_array eng)" using phi by simp
  have il: "idx < length (phase_shift_flow_adjuster_array eng)"
    using index_map_Some[of "branches_keys eng" b idx] idx ps
    by (simp add: branchname_to_index_map_def)
  have c: "get_branch_ptdf_const eng s b =
             (Inr (sum_list (map2 (*) row (phi_adjust_array eng))
                   + phase_shift_flow_adjuster_array eng ! idx), st1)"
    if "get_ptdf_row eng s b = (Inr row, st1)" for s
    using that idx lr il by (simp add: get_branch_ptdf_const_def np_dot_def np_get_def)
  show ?thesis
    by (rule exI[of _ row], rule exI[of _ st1], rule exI[of _ idx])
       (use g again idx lr il c[OF g] c[OF again] in simp)
qed


lemma ex_sp_wf: "sp_wf (B_dA ex_engine)" "sp_wf (B_dA_I ex_engine)"
  by (simp_all add: sp_wf_def ex_engine_def ex_B_dA_def)

lemma ex_solve_length: "\<forall>v. length (MLU_solve ex_engine v Trans) = length v"
  by (auto simp: ex_engine_def ex_solve_def split: list.splits)

lemma ex_branch1_index: "branchname_to_index_map ex_engine ''branch1'' = Some 0"
  by (simp add: branchname_to_index_map_def index_map_def ex_engine_def)

lemma ex_branch1_row:
  "fst (get_ptdf_row ex_engine (init_state [0, 0]) ''branch1'') = Inr [1, 1]"
  by (simp add: get_ptdf_row_def init_state_def branchname_to_index_map_def index_map_def
      sp_row_toarray_def ex_engine_def ex_B_dA_def ex_solve_def np_neg_def Let_def)

lemma ex_interface_index: "interfacename_to_index_map ex_engine ''I1'' = Some 0"
  by (simp add: interfacename_to_index_map_def index_map_def ex_engine_def)

lemma ex_interface_row:
  "fst (get_interface_row ex_engine (init_state [0, 0]) ''I1'') = Inr [0, - 1]"
  by code_simp

lemma ex_negated_interface_solve:
  "np_neg (MLU_solve ex_engine (mrows (B_dA_I ex_engine) ! 0) Trans) = [0, 1]"
  by code_simp

lemma ex_contingency_row:
  "fst (get_contingency_row ex_engine (init_state [0, 0]) ''c1'' ''branch1'') = Inr [- 5, - 5]"
  by code_simp

lemma ex_contingency_solves:
  "n_solves (snd (get_contingency_row ex_engine (init_state [0, 0]) ''c1'' ''branch1'')) = 2"
  by code_simp

lemma ex_negated_branch_solve:
  "np_neg (MLU_solve ex_engine (mrows (B_dA ex_engine) ! 0) Trans) = [1, 1]"
  by code_simp

lemma ex_registered:
  "registered ex_engine (BranchRow ''branch1'')"
  "registered ex_engine (InterfaceRow ''I1'')"
  "registered ex_engine (ContingencyRow ''c1'' ''branch1'')"
  by (simp_all add: registered_def ex_engine_def)

lemma ex_compensator_wf: "compensator_wf ex_engine 2 ex_compensator"
  by (simp add: compensator_wf_def ex_engine_def ex_compensator_def ex_identity_def ex_B_dA_def)

text \<open>
  On the three-bus network the row of interface I1 is \<open>[0, -1]\<close>, the transpose solve
  itself and not its negation \<open>[0, 1]\<close>; and a miss on the row of branch1 under
  contingency c1 takes two solves and gives \<open>[-5, -5]\<close>, not the negated transpose solve
  \<open>[1, 1]\<close> of the branch's row.
\<close>

theorem cached_row_idempotent_counterexample:
  "registered ex_engine (InterfaceRow ''I1'')
   \<and> interface_rows (init_state [0, 0]) ''I1'' = None
   \<and> interfacename_to_index_map ex_engine ''I1'' = Some 0
   \<and> fst (get_interface_row ex_engine (init_state [0, 0]) ''I1'') = Inr [0, - 1]
   \<and> np_neg (MLU_solve ex_engine (mrows (B_dA_I ex_engine) ! 0) Trans) = [0, 1]
   \<and> fst (get_interface_row ex_engine (init_state [0, 0]) ''I1'')
       \<noteq> Inr (np_neg (MLU_solve ex_engine (mrows (B_dA_I ex_engine) ! 0) Trans))
   \<and> registered ex_engine (ContingencyRow ''c1'' ''branch1'')
   \<and> contingency_rows (init_state [0, 0]) (''c1'', ''branch1'') = None
   \<and> branchname_to_index_map ex_engine ''branch1'' = Some 0
   \<and> fst (get_contingency_row ex_engine (init_state [0, 0]) ''c1'' ''branch1'') = Inr [- 5, - 5]
   \<and> n_solves (init_state [0, 0]) = 0
   \<and> n_solves (snd (get_contingency_row ex_engine (init_state [0, 0]) ''c1'' ''branch1'')) = 2
   \<and> np_neg (MLU_solve ex_engine (mrows (B_dA ex_engine) ! 0) Trans) = [1, 1]
   \<and> fst (get_contingency_row ex_engine (init_state [0, 0]) ''c1'' ''branch1'')
       \<noteq> Inr (np_neg (MLU_solve ex_engine (mrows (B_dA ex_engine) ! 0) Trans))"
proof -
  have miss: "interface_rows (init_state [0, 0]) ''I1'' = None"
    "contingency_rows (init_state [0, 0]) (''c1'', ''branch1'') = None"
    "n_solves (init_state [0, 0]) = 0"
    by (simp_all add: init_state_def)
  show ?thesis
    by (simp add: ex_registered ex_interface_index ex_interface_row ex_negated_interface_solve
        ex_branch1_index ex_contingency_row ex_contingency_solves ex_negated_branch_solve miss)
qed

text \<open>
  The three kinds of row on the three-bus network: branch1 has row \<open>[1, 1]\<close> after one
  solve, interface I1 has row \<open>[0, -1]\<close> after one solve, and branch1 under contingency
  c1 has row \<open>[-5, -5]\<close> after two solves; each is returned again with the state
  unchanged.
\<close>

theorem cached_row_idempotent_witness:
  "''branch1'' \<in> set (branches_keys ex_engine)
   \<and> ''I1'' \<in> set (interface_keys ex_engine)
   \<and> contingency_compensators ex_engine ''c1'' = Some ex_compensator
   \<and> compensator_wf ex_engine (length (bus_sensi_buffer (init_state [0, 0]))) ex_compensator
   \<and> (\<exists>st1. get_ptdf_row ex_engine (init_state [0, 0]) ''branch1'' = (Inr [1, 1], st1)
          \<and> n_solves st1 = 1
          \<and> get_ptdf_row ex_engine st1 ''branch1'' = (Inr [1, 1], st1))
   \<and> (\<exists>st1. get_interface_row ex_engine (init_state [0, 0]) ''I1'' = (Inr [0, - 1], st1)
          \<and> n_solves st1 = 1
          \<and> get_interface_row ex_engine st1 ''I1'' = (Inr [0, - 1], st1))
   \<and> (\<exists>st1. get_contingency_row ex_engine (init_state [0, 0]) ''c1'' ''branch1''
              = (Inr [- 5, - 5], st1)
          \<and> n_solves st1 = 2
          \<and> get_contingency_row ex_engine st1 ''c1'' ''branch1'' = (Inr [- 5, - 5], st1))"
proof -
  let ?st = "init_state [0, 0]"
  have reg: "''branch1'' \<in> set (branches_keys ex_engine)"
    and rows: "length (mrows (B_dA ex_engine)) = length (branches_keys ex_engine)"
    and buf: "ncols (B_dA ex_engine) = length (bus_sensi_buffer ?st)"
    and regi: "''I1'' \<in> set (interface_keys ex_engine)"
    and rowsi: "length (mrows (B_dA_I ex_engine)) = length (interface_keys ex_engine)"
    and bufi: "ncols (B_dA_I ex_engine) = length (bus_sensi_buffer ?st)"
    and cc: "contingency_compensators ex_engine ''c1'' = Some ex_compensator"
    and miss: "ptdf_rows ?st ''branch1'' = None" "interface_rows ?st ''I1'' = None"
      "contingency_rows ?st (''c1'', ''branch1'') = None" "n_solves ?st = 0"
    by (simp_all add: ex_engine_def ex_B_dA_def init_state_def)
  have bl2: "length (bus_sensi_buffer ?st) = 2" by (simp add: init_state_def)
  have cwf: "compensator_wf ex_engine (length (bus_sensi_buffer ?st)) ex_compensator"
    unfolding bl2 by (rule ex_compensator_wf)
  note t = cached_row_idempotent[of ex_engine ?st]
  from t[THEN conjunct1, rule_format, OF reg rows buf]
  obtain row st1 idx where g: "get_ptdf_row ex_engine ?st ''branch1'' = (Inr row, st1)"
    and m: "ptdf_rows ?st ''branch1'' = None \<longrightarrow>
              row = np_neg (MLU_solve ex_engine (mrows (B_dA ex_engine) ! idx) Trans)
              \<and> n_solves st1 = Suc (n_solves ?st)
              \<and> ptdf_rows st1 = (ptdf_rows ?st)(''branch1'' \<mapsto> row)"
    and again: "get_ptdf_row ex_engine st1 ''branch1'' = (Inr row, st1)"
    by (elim exE conjE) (rule that)
  from g ex_branch1_row have r: "row = [1, 1]" by simp
  from m miss have n: "n_solves st1 = 1" by simp
  have B: "\<exists>st1. get_ptdf_row ex_engine ?st ''branch1'' = (Inr [1, 1], st1)
          \<and> n_solves st1 = 1
          \<and> get_ptdf_row ex_engine st1 ''branch1'' = (Inr [1, 1], st1)"
    by (rule exI[of _ st1]) (use g again n r in simp)
  from t[THEN conjunct2, THEN conjunct1, rule_format, OF regi rowsi bufi]
  obtain rowi sti idxi where gi: "get_interface_row ex_engine ?st ''I1'' = (Inr rowi, sti)"
    and mi: "interface_rows ?st ''I1'' = None \<longrightarrow>
              rowi = MLU_solve ex_engine (mrows (B_dA_I ex_engine) ! idxi) Trans
              \<and> n_solves sti = Suc (n_solves ?st)
              \<and> interface_rows sti = (interface_rows ?st)(''I1'' \<mapsto> rowi)"
    and againi: "get_interface_row ex_engine sti ''I1'' = (Inr rowi, sti)"
    by (elim exE conjE) (rule that)
  from gi ex_interface_row have ri: "rowi = [0, - 1]" by simp
  from mi miss have ni: "n_solves sti = 1" by simp
  have I: "\<exists>st1. get_interface_row ex_engine ?st ''I1'' = (Inr [0, - 1], st1)
          \<and> n_solves st1 = 1
          \<and> get_interface_row ex_engine st1 ''I1'' = (Inr [0, - 1], st1)"
    by (rule exI[of _ sti]) (use gi againi ni ri in simp)
  from t[THEN conjunct2, THEN conjunct2, THEN conjunct1, rule_format,
      OF reg cc rows ex_sp_wf(1) cwf]
  obtain rowc stc idxc where gc: "get_contingency_row ex_engine ?st ''c1'' ''branch1'' = (Inr rowc, stc)"
    and mc: "contingency_rows ?st (''c1'', ''branch1'') = None \<longrightarrow>
                  (\<exists>buf WtF delF.
                       sp_T_matvec (cc_Pc ex_compensator) (mrows (B_dA ex_engine) ! idxc) = Inr buf
                     \<and> sp_T_matvec (cc_W ex_compensator) (cc_U_solve ex_compensator buf Trans) = Inr WtF
                     \<and> sp_matvec (cc_Wbar ex_compensator) (np_scale (- cc_c ex_compensator) WtF) = Inr delF
                     \<and> sp_T_matvec (cc_Pr ex_compensator)
                         (cc_L_solve ex_compensator
                            (map2 (+) (cc_U_solve ex_compensator buf Trans) delF) Trans) = Inr rowc)
                  \<and> n_solves stc = Suc (Suc (n_solves ?st))
                  \<and> contingency_rows stc = (contingency_rows ?st)((''c1'', ''branch1'') \<mapsto> rowc)"
    and againc: "get_contingency_row ex_engine stc ''c1'' ''branch1'' = (Inr rowc, stc)"
    by (elim exE conjE) (rule that)
  from gc ex_contingency_row have rc: "rowc = [- 5, - 5]" by simp
  from mc miss have nc: "n_solves stc = 2" by simp
  have C: "\<exists>st1. get_contingency_row ex_engine ?st ''c1'' ''branch1'' = (Inr [- 5, - 5], st1)
          \<and> n_solves st1 = 2
          \<and> get_contingency_row ex_engine st1 ''c1'' ''branch1'' = (Inr [- 5, - 5], st1)"
    by (rule exI[of _ stc]) (use gc againc nc rc in simp)
  from reg regi cc cwf B I C show ?thesis by blast
qed

text \<open>
  An unknown branch and an unknown contingency, after a request for branch1.
\<close>

theorem unknown_key_fails_witness:
  "\<not> registered ex_engine (BranchRow ''branch9'')
   \<and> \<not> registered ex_engine (ContingencyRow ''c9'' ''branch1'')
   \<and> serve ex_engine (snd (run_requests ex_engine (init_state [0, 0]) [BranchRow ''branch1'']))
        (BranchRow ''branch9'')
       = (Inl (KeyError ''branch9''),
          snd (run_requests ex_engine (init_state [0, 0]) [BranchRow ''branch1'']))
   \<and> serve ex_engine (snd (run_requests ex_engine (init_state [0, 0]) [BranchRow ''branch1'']))
        (ContingencyRow ''c9'' ''branch1'')
       = (Inl (KeyError ''c9''),
          snd (run_requests ex_engine (init_state [0, 0]) [BranchRow ''branch1'']))"
proof -
  have u1: "\<not> registered ex_engine (BranchRow ''branch9'')"
    and u2: "\<not> registered ex_engine (ContingencyRow ''c9'' ''branch1'')"
    and b1: "''branch1'' \<in> set (branches_keys ex_engine)"
    by (simp_all add: registered_def ex_engine_def)
  from unknown_key_fails[OF refl u1, of "[0, 0]" "[BranchRow ''branch1'']"]
    unknown_key_fails[OF refl u2, of "[0, 0]" "[BranchRow ''branch1'']"] u1 u2 b1
  show ?thesis by simp
qed

text \<open>
  Three requests and their reverse, on buffers that hold different values.
\<close>

theorem cache_population_order_independent_witness:
  "sp_wf (B_dA ex_engine) \<and> sp_wf (B_dA_I ex_engine)
   \<and> mset [BranchRow ''branch1'', InterfaceRow ''I1'', ContingencyRow ''c1'' ''branch1'']
       = mset [ContingencyRow ''c1'' ''branch1'', InterfaceRow ''I1'', BranchRow ''branch1'']
   \<and> length [0, 0 :: real] = length [1, 2 :: real]
   \<and> ptdf_rows (snd (run_requests ex_engine (init_state [0, 0])
         [BranchRow ''branch1'', InterfaceRow ''I1'', ContingencyRow ''c1'' ''branch1'']))
       = ptdf_rows (snd (run_requests ex_engine (init_state [1, 2])
         [ContingencyRow ''c1'' ''branch1'', InterfaceRow ''I1'', BranchRow ''branch1'']))
   \<and> fst (run_requests ex_engine (init_state [0, 0])
         [BranchRow ''branch1'', InterfaceRow ''I1'', ContingencyRow ''c1'' ''branch1'']) ! 0
       = fst (run_requests ex_engine (init_state [1, 2])
         [ContingencyRow ''c1'' ''branch1'', InterfaceRow ''I1'', BranchRow ''branch1'']) ! 2
   \<and> fst (run_requests ex_engine (init_state [0, 0])
         [BranchRow ''branch1'', InterfaceRow ''I1'', ContingencyRow ''c1'' ''branch1'']) ! 0
       = Inr [1, 1]"
proof -
  let ?r1 = "[BranchRow ''branch1'', InterfaceRow ''I1'', ContingencyRow ''c1'' ''branch1'']"
  let ?r2 = "[ContingencyRow ''c1'' ''branch1'', InterfaceRow ''I1'', BranchRow ''branch1'']"
  have perm: "mset ?r1 = mset ?r2" by simp
  have bufs: "length [0, 0 :: real] = length [1, 2 :: real]" by simp
  have run1: "run_requests ex_engine (init_state [0, 0]) ?r1
      = (fst (run_requests ex_engine (init_state [0, 0]) ?r1),
         snd (run_requests ex_engine (init_state [0, 0]) ?r1))" by simp
  have run2: "run_requests ex_engine (init_state [1, 2]) ?r2
      = (fst (run_requests ex_engine (init_state [1, 2]) ?r2),
         snd (run_requests ex_engine (init_state [1, 2]) ?r2))" by simp
  note t = cache_population_order_independent[OF ex_sp_wf perm bufs run1 run2]
  from t have p: "ptdf_rows (snd (run_requests ex_engine (init_state [0, 0]) ?r1))
       = ptdf_rows (snd (run_requests ex_engine (init_state [1, 2]) ?r2))" by blast
  from t have "\<forall>i < length ?r1. \<forall>j < length ?r2. ?r1 ! i = ?r2 ! j \<longrightarrow>
       fst (run_requests ex_engine (init_state [0, 0]) ?r1) ! i
         = fst (run_requests ex_engine (init_state [1, 2]) ?r2) ! j" by blast
  from this[rule_format, of 0 2]
  have e: "fst (run_requests ex_engine (init_state [0, 0]) ?r1) ! 0
         = fst (run_requests ex_engine (init_state [1, 2]) ?r2) ! 2" by simp
  from t have "\<forall>i < length ?r1. fst (run_requests ex_engine (init_state [0, 0]) ?r1) ! i
       = fst (serve ex_engine (init_state [0, 0]) (?r1 ! i))" by blast
  from this[rule_format, of 0]
  have "fst (run_requests ex_engine (init_state [0, 0]) ?r1) ! 0
          = fst (get_ptdf_row ex_engine (init_state [0, 0]) ''branch1'')"
    by (simp add: serve_def)
  also have "\<dots> = Inr [1, 1]"
    by (rule ex_branch1_row)
  finally have v: "fst (run_requests ex_engine (init_state [0, 0]) ?r1) ! 0 = Inr [1, 1]" .
  from ex_sp_wf perm bufs p e v show ?thesis by blast
qed

text \<open>
  Branch1 of the three-bus network: \<open>1 * 1/2 + 1 * 1/4 + 3 = 15/4\<close>.
\<close>

theorem branch_ptdf_const_consistent_witness:
  "''branch1'' \<in> set (branches_keys ex_engine)
   \<and> get_branch_ptdf_const ex_engine (init_state [0, 0]) ''branch1''
       = (Inr (15 / 4), snd (get_ptdf_row ex_engine (init_state [0, 0]) ''branch1''))
   \<and> get_ptdf_row ex_engine (init_state [0, 0]) ''branch1''
       = (Inr [1, 1], snd (get_ptdf_row ex_engine (init_state [0, 0]) ''branch1''))
   \<and> sum_list (map2 (*) [1, 1] (phi_adjust_array ex_engine))
       + phase_shift_flow_adjuster_array ex_engine ! 0 = 15 / 4"
proof -
  have reg: "''branch1'' \<in> set (branches_keys ex_engine)"
    and rows: "length (mrows (B_dA ex_engine)) = length (branches_keys ex_engine)"
    and phi: "length (phi_adjust_array ex_engine) = ncols (B_dA ex_engine)"
    and ps: "length (phase_shift_flow_adjuster_array ex_engine) = length (branches_keys ex_engine)"
    and buf: "length [0, 0 :: real] = ncols (B_dA ex_engine)"
    by (simp_all add: ex_engine_def ex_B_dA_def)
  have reach: "init_state [0, 0] = snd (run_requests ex_engine (init_state [0, 0]) [])"
    by simp
  from branch_ptdf_const_consistent[OF reg rows ex_sp_wf ex_solve_length phi ps buf reach]
  obtain row st1 idx where g: "get_ptdf_row ex_engine (init_state [0, 0]) ''branch1'' = (Inr row, st1)"
    and idx: "branchname_to_index_map ex_engine ''branch1'' = Some idx"
    and c: "get_branch_ptdf_const ex_engine (init_state [0, 0]) ''branch1'' =
             (Inr (sum_list (map2 (*) row (phi_adjust_array ex_engine))
                   + phase_shift_flow_adjuster_array ex_engine ! idx), st1)"
    by (elim exE conjE) (rule that)
  have v: "fst (get_ptdf_row ex_engine (init_state [0, 0]) ''branch1'') = Inr [1, 1]"
    by (rule ex_branch1_row)
  with g have row: "row = [1, 1]" by simp
  from idx have i0: "idx = 0" by (simp add: ex_branch1_index)
  have s: "sum_list (map2 (*) [1, 1] (phi_adjust_array ex_engine))
       + phase_shift_flow_adjuster_array ex_engine ! 0 = 15 / 4"
    by (simp add: ex_engine_def)
  from g c show ?thesis
    unfolding row i0 using reg s by simp
qed

subsection \<open>Contingency flow differences\<close>

lemma pfv_delta_impl_zero_flow:
  assumes res: "calculate_PFV_delta_impl eng cn PFV VA is_masked = Inr delta"
    and cc: "contingency_compensators eng cn = Some cc"
  shows "(\<not> is_masked \<longrightarrow>
            length delta = length (mrows (B_dA eng))
          \<and> (\<exists>k. branchname_to_index_map eng (branch_out cc) = Some k
                 \<and> k < length delta \<and> k < length PFV \<and> delta ! k = - (PFV ! k)))
       \<and> (is_masked \<longrightarrow>
            length delta = length (mrows (B_dA_masked (filtered eng)))
          \<and> (\<forall>k. branchname_to_index_masked_map eng (branch_out cc) = Some k \<longrightarrow>
                 k < length delta \<and> k < length PFV \<and> delta ! k = - (PFV ! k)))"
  using res cc
  by (auto simp: calculate_PFV_delta_impl_def np_set_def np_get_def sp_matvec_def
      split: option.splits sum.splits if_splits)

text \<open>
  Claim C2. For a registered contingency with outaged branch \<^verbatim>\<open>branch_out\<close>, a vector of
  flow differences returned by \<^verbatim>\<open>calculate_PFV_delta\<close> has one entry for each row of
  \<^verbatim>\<open>B_dA\<close>, the index \<open>k\<close> of the outaged branch is in range, and the entry there is
  set to the negated base flow: \<open>PFV[k] + delta[k] = 0\<close>. With the masked variant the same
  holds whenever the outaged branch has an index in the masked map.
\<close>

theorem pfv_delta_zero_flow:
  assumes cc: "contingency_compensators eng cn = Some cc"
  shows "(\<forall>delta. calculate_PFV_delta eng cn PFV VA = Inr delta \<longrightarrow>
            length delta = length (mrows (B_dA eng))
          \<and> (\<exists>k. branchname_to_index_map eng (branch_out cc) = Some k
                 \<and> k < length delta \<and> k < length PFV \<and> PFV ! k + delta ! k = 0))
       \<and> (\<forall>delta k. calculate_masked_PFV_delta eng cn PFV VA = Inr delta \<longrightarrow>
            branchname_to_index_masked_map eng (branch_out cc) = Some k \<longrightarrow>
              k < length delta \<and> k < length PFV \<and> PFV ! k + delta ! k = 0)"
proof (intro conjI allI impI)
  fix delta
  assume "calculate_PFV_delta eng cn PFV VA = Inr delta"
  then have r: "calculate_PFV_delta_impl eng cn PFV VA False = Inr delta"
    by (simp add: calculate_PFV_delta_def)
  from pfv_delta_impl_zero_flow[OF r cc]
  show "length delta = length (mrows (B_dA eng))"
    and "\<exists>k. branchname_to_index_map eng (branch_out cc) = Some k
                 \<and> k < length delta \<and> k < length PFV \<and> PFV ! k + delta ! k = 0"
    by auto
next
  fix delta k
  assume "calculate_masked_PFV_delta eng cn PFV VA = Inr delta"
    and k: "branchname_to_index_masked_map eng (branch_out cc) = Some k"
  then have r: "calculate_PFV_delta_impl eng cn PFV VA True = Inr delta"
    by (simp add: calculate_masked_PFV_delta_def)
  from pfv_delta_impl_zero_flow[OF r cc] k
  show "k < length delta" and "k < length PFV" and "PFV ! k + delta ! k = 0"
    by auto
qed


subsection \<open>Locational marginal prices\<close>

lemma sp_T_matvec_length: "sp_T_matvec A v = Inr y \<Longrightarrow> length y = ncols A"
  by (auto simp: sp_T_matvec_def split: if_splits)

lemma np_add_same: "length a = length b \<Longrightarrow> np_add a b = Inr (map2 (+) a b)"
  by (simp add: np_add_def)

lemma np_iadd_length: "np_iadd a b = Inr c \<Longrightarrow> length c = length a"
  by (auto simp: np_iadd_def split: if_splits)

lemma lmpcc_loop_length: "lmpcc_loop rows ds acc = Inr r \<Longrightarrow> length r = length acc"
proof (induction rows ds acc rule: lmpcc_loop.induct)
  case (1 rows LMPCC)
  then show ?case by simp
next
  case (2 rows cn bn dual_value rest LMPCC)
  show ?case
  proof (cases "dual_value = 0")
    case True
    with 2 show ?thesis by simp
  next
    case False
    with "2.prems" obtain row acc' where row: "rows (cn, bn) = Some row"
      and add: "np_iadd LMPCC (np_scale (- dual_value) row) = Inr acc'"
      and rest: "lmpcc_loop rows rest acc' = Inr r"
      by (auto split: option.splits sum.splits)
    from "2.IH"(1)[OF False row add rest] np_iadd_length[OF add] show ?thesis by simp
  qed
qed

lemma lmpcc_loop_total:
  "\<forall>p \<in> set ds. snd p \<noteq> 0 \<longrightarrow> (\<exists>row. rows (fst p) = Some row \<and> length row = length acc) \<Longrightarrow>
   \<exists>r. lmpcc_loop rows ds acc = Inr r"
proof (induction rows ds acc rule: lmpcc_loop.induct)
  case (1 rows LMPCC)
  then show ?case by simp
next
  case (2 rows cn bn dual_value rest LMPCC)
  show ?case
  proof (cases "dual_value = 0")
    case True
    with 2 show ?thesis by simp
  next
    case False
    with "2.prems" obtain row where row: "rows (cn, bn) = Some row"
      and len: "length row = length LMPCC" by auto
    let ?acc' = "map2 (+) LMPCC (np_scale (- dual_value) row)"
    have add: "np_iadd LMPCC (np_scale (- dual_value) row) = Inr ?acc'"
      using len by (simp add: np_iadd_def np_scale_def)
    have "length ?acc' = length LMPCC" using len by (simp add: np_scale_def)
    with "2.prems" have
      "\<forall>p \<in> set rest. snd p \<noteq> 0 \<longrightarrow> (\<exists>row. rows (fst p) = Some row \<and> length row = length ?acc')"
      by simp
    from "2.IH"(1)[OF False row add this] False row add show ?thesis by simp
  qed
qed

lemma map2_add_zero: "length xs = n \<Longrightarrow> map2 (+) xs (replicate n (0::real)) = xs"
  by (auto intro!: nth_equalityI)


lemma reference_bus_index:
  assumes d: "distinct (buses_keys eng)"
    and r: "reference_bus eng \<in> set (buses_keys eng)"
  shows "\<exists>i. busname_to_index_map eng (reference_bus eng) = Some i
           \<and> i < length (buses_keys eng)
           \<and> Suc (length (buses_keys_no_ref eng)) = length (buses_keys eng)"
proof -
  let ?ks = "buses_keys eng"
  from r obtain i where i: "index_map ?ks (reference_bus eng) = Some i"
    using index_map_None[of ?ks "reference_bus eng"] by (cases "index_map ?ks (reference_bus eng)") auto
  from index_map_Some[OF i] have il: "i < length ?ks" and ir: "?ks ! i = reference_bus eng"
    by simp_all
  have nr: "buses_keys_no_ref eng = take i ?ks @ drop (Suc i) ?ks"
    using filter_neq_nth[OF d il] by (simp add: buses_keys_no_ref_def ir)
  have "Suc (length (buses_keys_no_ref eng)) = length ?ks"
    using il by (simp add: nr)
  with i il show ?thesis by (simp add: busname_to_index_map_def)
qed

lemma map2_nth_conv:
  "length xs = length ys \<Longrightarrow> map2 f xs ys = map (\<lambda>k. f (xs ! k) (ys ! k)) [0..<length ys]"
  by (rule nth_equalityI) simp_all

lemma sp_T_matvec_neg:
  assumes "sp_T_matvec A d = Inr y"
  shows "np_neg y = neg_transpose_product A d"
proof -
  from assms have len: "length (mrows A) = length d"
    and y: "y = map (\<lambda>j. sum_list (map2 (\<lambda>r x. r ! j * x) (mrows A) d)) [0..<ncols A]"
    by (auto simp: sp_T_matvec_def split: if_splits)
  show ?thesis
    unfolding y neg_transpose_product_def np_neg_def
    by (simp add: map2_nth_conv[OF len])
qed

lemma lmpcc_loop_sum:
  "\<forall>p \<in> set ds. snd p \<noteq> 0 \<longrightarrow> (\<exists>row. rows (fst p) = Some row \<and> length row = length acc) \<Longrightarrow>
   lmpcc_loop rows ds acc =
     Inr (map (\<lambda>j. acc ! j + contingency_congestion_component rows ds j) [0..<length acc])"
proof (induction rows ds acc rule: lmpcc_loop.induct)
  case (1 rows LMPCC)
  show ?case
    by (simp add: contingency_congestion_component_def map_nth)
next
  case (2 rows cn bn dual_value rest LMPCC)
  show ?case
  proof (cases "dual_value = 0")
    case True
    from "2.prems" have
      "\<forall>p \<in> set rest. snd p \<noteq> 0 \<longrightarrow> (\<exists>row. rows (fst p) = Some row \<and> length row = length LMPCC)"
      by simp
    from "2.IH"(2)[OF _ this] True show ?thesis
      by (simp add: contingency_congestion_component_def)
  next
    case False
    with "2.prems" obtain row where row: "rows (cn, bn) = Some row"
      and len: "length row = length LMPCC" by auto
    let ?acc' = "map2 (+) LMPCC (np_scale (- dual_value) row)"
    have add: "np_iadd LMPCC (np_scale (- dual_value) row) = Inr ?acc'"
      using len by (simp add: np_iadd_def np_scale_def)
    have la: "length ?acc' = length LMPCC" using len by (simp add: np_scale_def)
    with "2.prems" have
      "\<forall>p \<in> set rest. snd p \<noteq> 0 \<longrightarrow> (\<exists>row. rows (fst p) = Some row \<and> length row = length ?acc')"
      by simp
    from "2.IH"(1)[OF False row add this]
    have "lmpcc_loop rows (((cn, bn), dual_value) # rest) LMPCC =
            Inr (map (\<lambda>j. ?acc' ! j + contingency_congestion_component rows rest j)
                   [0..<length ?acc'])"
      using False row add by simp
    also have "map (\<lambda>j. ?acc' ! j + contingency_congestion_component rows rest j)
                   [0..<length ?acc']
             = map (\<lambda>j. LMPCC ! j
                      + contingency_congestion_component rows (((cn, bn), dual_value) # rest) j)
                   [0..<length LMPCC]"
      unfolding la
      by (rule map_cong[OF refl])
         (use len row in \<open>simp add: contingency_congestion_component_def np_scale_def\<close>)
    finally show ?thesis .
  qed
qed

lemma lmp_sum_nth:
  assumes "length C = n" "length I = n"
  shows "map2 (+) (map2 (+) (map (\<lambda>x. E + x) C) I)
           (map (\<lambda>j. replicate n (0::real) ! j + f j) [0..<length (replicate n (0::real))])
         = map (\<lambda>j. E + C ! j + I ! j + f j) [0..<n]"
  using assms by (intro nth_equalityI) simp_all

lemma lmp_sum_nth0:
  assumes "length C = n" "length I = n"
  shows "map2 (+) (map (\<lambda>x. E + x) C) I = map (\<lambda>j. E + C ! j + I ! j + (0::real)) [0..<n]"
  using assms by (intro nth_equalityI) simp_all

text \<open>
  Claim C7. With distinct bus keys that hold the reference bus, a length-preserving
  solve and matrices over the reference-eliminated buses, a vector returned by
  \<^verbatim>\<open>calculate_LMP\<close> has one entry for each bus (not one fewer), its entry at the index
  of the reference bus is the energy dual, and its other entries are the elementwise
  sum of the energy dual, the branch congestion component, the interface component and
  the contingency component accumulated by the loop (zero without contingencies). When
  every contingency constraint with a nonzero dual has a cached row over the
  reference-eliminated buses, the call returns, and entry \<open>j\<close> of the vector without its
  reference entry is the energy dual plus entry \<open>j\<close> of the branch congestion component,
  of the interface component and of the contingency congestion component, each as the
  specification writes it from the duals.
\<close>

theorem lmp_reference_bus_reinserted:
  assumes d: "distinct (buses_keys eng)"
    and r: "reference_bus eng \<in> set (buses_keys eng)"
    and solve: "\<forall>v. length (MLU_solve eng v Trans) = length v"
    and nB: "ncols (B_dA_masked (filtered eng)) = length (buses_keys_no_ref eng)"
    and nI: "ncols (B_dA_I eng) = length (buses_keys_no_ref eng)"
    and rB: "length (mrows (B_dA_masked (filtered eng))) = length (branches_keys_masked (filtered eng))"
    and rI: "length (mrows (B_dA_I eng)) = length (interface_keys eng)"
  shows "(\<forall>LMP. calculate_LMP eng st mb = Inr LMP \<longrightarrow>
            length LMP = length (buses_keys eng)
          \<and> (\<exists>i LMPCC.
                busname_to_index_map eng (reference_bus eng) = Some i
              \<and> LMP ! i = bus_balance_dual mb
              \<and> (if has_contingencies eng
                  then lmpcc_loop (contingency_rows st) (contingency_duals mb)
                         (replicate (length (buses_keys_no_ref eng)) 0) = Inr LMPCC
                  else LMPCC = replicate (length (buses_keys_no_ref eng)) 0)
              \<and> remove_reference_bus eng LMP =
                  Inr (map2 (+)
                         (map2 (+) (map (\<lambda>x. bus_balance_dual mb + x)
                                      (branch_congestion_component eng mb))
                                   (interface_component eng mb))
                         LMPCC)))
       \<and> ((has_contingencies eng \<longrightarrow>
             (\<forall>p \<in> set (contingency_duals mb). snd p \<noteq> 0 \<longrightarrow>
                (\<exists>row. contingency_rows st (fst p) = Some row
                       \<and> length row = length (buses_keys_no_ref eng))))
            \<longrightarrow> (\<exists>LMP. calculate_LMP eng st mb = Inr LMP
                    \<and> remove_reference_bus eng LMP =
                        Inr (map (\<lambda>j. bus_balance_dual mb
                                     + branch_congestion_component eng mb ! j
                                     + interface_component eng mb ! j
                                     + (if has_contingencies eng
                                        then contingency_congestion_component (contingency_rows st)
                                               (contingency_duals mb) j
                                        else 0))
                               [0..<length (buses_keys_no_ref eng)])))"
proof -
  let ?n = "length (buses_keys_no_ref eng)"
  let ?E = "bus_balance_dual mb"
  let ?C = "branch_congestion_component eng mb"
  let ?I = "interface_component eng mb"
  let ?CC = "contingency_congestion_component (contingency_rows st) (contingency_duals mb)"
  let ?P = "\<lambda>LMP. length LMP = length (buses_keys eng)
          \<and> (\<exists>i LMPCC.
                busname_to_index_map eng (reference_bus eng) = Some i
              \<and> LMP ! i = bus_balance_dual mb
              \<and> (if has_contingencies eng
                  then lmpcc_loop (contingency_rows st) (contingency_duals mb)
                         (replicate (length (buses_keys_no_ref eng)) 0) = Inr LMPCC
                  else LMPCC = replicate (length (buses_keys_no_ref eng)) 0)
              \<and> remove_reference_bus eng LMP =
                  Inr (map2 (+)
                         (map2 (+) (map (\<lambda>x. bus_balance_dual mb + x)
                                      (branch_congestion_component eng mb))
                                   (interface_component eng mb))
                         LMPCC))"
  let ?Q = "\<lambda>LMP. remove_reference_bus eng LMP =
                        Inr (map (\<lambda>j. bus_balance_dual mb
                                     + branch_congestion_component eng mb ! j
                                     + interface_component eng mb ! j
                                     + (if has_contingencies eng
                                        then contingency_congestion_component (contingency_rows st)
                                               (contingency_duals mb) j
                                        else 0))
                               [0..<length (buses_keys_no_ref eng)])"
  from reference_bus_index[OF d r] obtain i
    where i: "busname_to_index_map eng (reference_bus eng) = Some i"
      and il: "i < length (buses_keys eng)" and n: "Suc ?n = length (buses_keys eng)"
    by blast
  obtain BtP where BtP: "sp_T_matvec (B_dA_masked (filtered eng)) (lmp_PFD eng mb) = Inr BtP"
    using rB by (simp add: sp_T_matvec_def lmp_PFD_def)
  obtain ItP where ItP: "sp_T_matvec (B_dA_I eng) (lmp_PFID eng mb) = Inr ItP"
    using rI by (simp add: sp_T_matvec_def lmp_PFID_def)
  have Ceq: "MLU_solve eng (np_neg BtP) Trans = ?C"
    unfolding sp_T_matvec_neg[OF BtP] branch_congestion_component_def lmp_PFD_def ..
  have Ieq: "MLU_solve eng (np_neg ItP) Trans = ?I"
    unfolding sp_T_matvec_neg[OF ItP] interface_component_def lmp_PFID_def ..
  have lC: "length ?C = ?n"
    unfolding Ceq[symmetric]
    using sp_T_matvec_length[OF BtP] solve nB by (simp add: np_neg_def)
  have lI: "length ?I = ?n"
    unfolding Ieq[symmetric]
    using sp_T_matvec_length[OF ItP] solve nI by (simp add: np_neg_def)
  let ?L0 = "map2 (+) (map (\<lambda>x. ?E + x) ?C) ?I"
  have add0: "np_add (map (\<lambda>x. ?E + x) ?C) ?I = Inr ?L0"
    using lC lI by (simp add: np_add_same)
  have l0: "length ?L0 = ?n" using lC lI by simp
  have ins: "insert_reference_bus eng x ?E = Inr (take i x @ ?E # drop i x)"
      "length (take i x @ ?E # drop i x) = length (buses_keys eng)"
      "(take i x @ ?E # drop i x) ! i = ?E"
      "remove_reference_bus eng (take i x @ ?E # drop i x) = Inr x"
    if "length x = ?n" for x
  proof -
    have ix: "i \<le> length x" using that il n by simp
    show "insert_reference_bus eng x ?E = Inr (take i x @ ?E # drop i x)"
      using ix i by (simp add: insert_reference_bus_def np_insert_def)
    show "length (take i x @ ?E # drop i x) = length (buses_keys eng)"
      using ix that n by simp
    show "(take i x @ ?E # drop i x) ! i = ?E"
      using ix by (simp add: nth_append)
    show "remove_reference_bus eng (take i x @ ?E # drop i x) = Inr x"
      using ix i by (simp add: remove_reference_bus_def np_delete_def min_def)
  qed
  have unfold: "calculate_LMP eng st mb =
      (if has_contingencies eng then
         (case lmpcc_loop (contingency_rows st) (contingency_duals mb) (replicate ?n 0) of
            Inl e \<Rightarrow> Inl e
          | Inr LMPCC \<Rightarrow>
              (case np_add ?L0 LMPCC of
                 Inl e \<Rightarrow> Inl e
               | Inr LMP \<Rightarrow> insert_reference_bus eng LMP ?E))
       else insert_reference_bus eng ?L0 ?E)"
    by (simp add: calculate_LMP_def BtP ItP Let_def Ceq Ieq add0 lC)
  have shape: "?P (take i (map2 (+) ?L0 LMPCC) @ ?E # drop i (map2 (+) ?L0 LMPCC))"
    if lcc: "length LMPCC = ?n"
      and cond: "if has_contingencies eng
                 then lmpcc_loop (contingency_rows st) (contingency_duals mb)
                        (replicate (length (buses_keys_no_ref eng)) 0) = Inr LMPCC
                 else LMPCC = replicate (length (buses_keys_no_ref eng)) 0"
    for LMPCC
  proof -
    let ?S = "map2 (+) ?L0 LMPCC"
    have lS: "length ?S = ?n" using l0 lcc by simp
    note f = ins[OF lS]
    show ?thesis
      by (rule conjI, rule f(2), rule exI[of _ i], rule exI[of _ LMPCC], intro conjI)
         (rule i f(3) cond f(4))+
  qed
  show ?thesis
  proof (cases "has_contingencies eng")
    case False
    let ?Z = "replicate ?n (0::real)"
    have z: "map2 (+) ?L0 ?Z = ?L0"
      by (rule map2_add_zero[OF l0])
    have "?P (take i (map2 (+) ?L0 ?Z) @ ?E # drop i (map2 (+) ?L0 ?Z))"
      using False by (intro shape) simp_all
    then have P0: "?P (take i ?L0 @ ?E # drop i ?L0)"
      unfolding z .
    from False unfold have c: "calculate_LMP eng st mb = Inr (take i ?L0 @ ?E # drop i ?L0)"
      using ins(1)[OF l0] by simp
    have 1: "\<forall>LMP. calculate_LMP eng st mb = Inr LMP \<longrightarrow> ?P LMP"
      unfolding c using P0 by blast
    have eq: "?L0 = map (\<lambda>j. ?E + ?C ! j + ?I ! j + 0) [0..<?n]"
      by (rule lmp_sum_nth0[OF lC lI])
    have qt: "(\<lambda>j. ?E + ?C ! j + ?I ! j + (if has_contingencies eng then ?CC j else 0))
                = (\<lambda>j. ?E + ?C ! j + ?I ! j + 0)"
      using False by simp
    have "?Q (take i ?L0 @ ?E # drop i ?L0)"
      unfolding ins(4)[OF l0] qt by (simp only: eq)
    with c have 2: "\<exists>LMP. calculate_LMP eng st mb = Inr LMP \<and> ?Q LMP"
      by blast
    from 1 2 show ?thesis by blast
  next
    case True
    have run: "calculate_LMP eng st mb
                 = Inr (take i (map2 (+) ?L0 LMPCC) @ ?E # drop i (map2 (+) ?L0 LMPCC))
               \<and> length LMPCC = ?n"
      if loop: "lmpcc_loop (contingency_rows st) (contingency_duals mb) (replicate ?n 0) = Inr LMPCC"
      for LMPCC
    proof -
      from lmpcc_loop_length[OF loop] have lcc: "length LMPCC = ?n" by simp
      let ?S = "map2 (+) ?L0 LMPCC"
      have adds: "np_add ?L0 LMPCC = Inr ?S" using l0 lcc by (simp add: np_add_same)
      have lS: "length ?S = ?n" using l0 lcc by simp
      have "calculate_LMP eng st mb = Inr (take i ?S @ ?E # drop i ?S)"
        unfolding unfold using True by (simp add: loop adds ins(1)[OF lS])
      with lcc show ?thesis by simp
    qed
    have 1: "?P LMP" if res: "calculate_LMP eng st mb = Inr LMP" for LMP
    proof -
      from res unfold True obtain LMPCC where
        loop: "lmpcc_loop (contingency_rows st) (contingency_duals mb) (replicate ?n 0) = Inr LMPCC"
        by (auto split: sum.splits)
      from run[OF loop] res
      have LMP: "LMP = take i (map2 (+) ?L0 LMPCC) @ ?E # drop i (map2 (+) ?L0 LMPCC)"
        and lcc: "length LMPCC = ?n" by simp_all
      show ?thesis unfolding LMP
        using True loop by (intro shape[OF lcc]) simp
    qed
    have 2: "\<exists>LMP. calculate_LMP eng st mb = Inr LMP \<and> ?Q LMP"
      if av: "\<forall>p \<in> set (contingency_duals mb). snd p \<noteq> 0 \<longrightarrow>
              (\<exists>row. contingency_rows st (fst p) = Some row \<and> length row = ?n)"
    proof -
      let ?LMPCC = "map (\<lambda>j. replicate ?n (0::real) ! j + ?CC j)
                      [0..<length (replicate ?n (0::real))]"
      have "\<forall>p \<in> set (contingency_duals mb). snd p \<noteq> 0 \<longrightarrow>
              (\<exists>row. contingency_rows st (fst p) = Some row
                     \<and> length row = length (replicate ?n (0::real)))"
        using av by simp
      from lmpcc_loop_sum[OF this]
      have loop: "lmpcc_loop (contingency_rows st) (contingency_duals mb) (replicate ?n 0)
                    = Inr ?LMPCC" .
      let ?S = "map2 (+) ?L0 ?LMPCC"
      have lS: "length ?S = ?n" using l0 by simp
      from run[OF loop] have c: "calculate_LMP eng st mb = Inr (take i ?S @ ?E # drop i ?S)"
        by simp
      have eq: "?S = map (\<lambda>j. ?E + ?C ! j + ?I ! j + ?CC j) [0..<?n]"
        by (rule lmp_sum_nth[OF lC lI])
      have qt: "(\<lambda>j. ?E + ?C ! j + ?I ! j + (if has_contingencies eng then ?CC j else 0))
                  = (\<lambda>j. ?E + ?C ! j + ?I ! j + ?CC j)"
        using True by simp
      have "?Q (take i ?S @ ?E # drop i ?S)"
        unfolding ins(4)[OF lS] qt by (simp only: eq)
      with c show ?thesis by blast
    qed
    from 1 2 True show ?thesis by blast
  qed
qed


lemma ex_compensator_c1: "contingency_compensators ex_engine ''c1'' = Some ex_compensator"
  by (simp add: ex_engine_def)

lemma ex_pfv_delta:
  "calculate_PFV_delta ex_engine ''c1'' [100, 100] [0, 10, 30] = Inr [0, - 100]"
  by (simp add: calculate_PFV_delta_def calculate_PFV_delta_impl_def ex_engine_def
      ex_compensator_def ex_B_dA_def ex_solve_def np_bool_index_def np_neg_def np_scale_def
      sp_T_matvec_def sp_matvec_def np_get_def np_set_def branchname_to_index_map_def
      index_map_def)

text \<open>
  The outage of branch2 in the three-bus network, with base flows of 100.
\<close>

theorem pfv_delta_zero_flow_witness:
  "contingency_compensators ex_engine ''c1'' = Some ex_compensator
   \<and> calculate_PFV_delta ex_engine ''c1'' [100, 100] [0, 10, 30] = Inr [0, - 100]
   \<and> branchname_to_index_map ex_engine (branch_out ex_compensator) = Some 1
   \<and> [100, 100] ! 1 + [0, - 100] ! 1 = (0 :: real)"
proof -
  have k1: "branchname_to_index_map ex_engine (branch_out ex_compensator) = Some 1"
    by (simp add: branchname_to_index_map_def index_map_def ex_engine_def ex_compensator_def)
  from pfv_delta_zero_flow[OF ex_compensator_c1, of "[100, 100]" "[0, 10, 30]",
      THEN conjunct1, rule_format, OF ex_pfv_delta]
  obtain k where "branchname_to_index_map ex_engine (branch_out ex_compensator) = Some k"
    and "[100, 100] ! k + [0, - 100] ! k = (0 :: real)"
    by blast
  with k1 have "[100, 100] ! 1 + [0, - 100] ! 1 = (0 :: real)" by simp
  with ex_compensator_c1 ex_pfv_delta k1 show ?thesis by blast
qed

lemma ex_lmp: "calculate_LMP ex_engine (init_state [0, 0]) ex_duals = Inr [30, 32, 32]"
  by code_simp

lemma ex_state_c1_row: "contingency_rows ex_state_c1 (''c1'', ''branch1'') = Some [- 5, - 5]"
  by code_simp

lemma ex_lmp_all: "calculate_LMP ex_engine ex_state_c1 ex_duals_all = Inr [30, 47, 51]"
  by code_simp

lemma ex_components:
  "branch_congestion_component ex_engine ex_duals_all = [2, 2]"
  "interface_component ex_engine ex_duals_all = [0, 4]"
  "contingency_congestion_component (contingency_rows ex_state_c1)
     (contingency_duals ex_duals_all) 0 = 15"
  "contingency_congestion_component (contingency_rows ex_state_c1)
     (contingency_duals ex_duals_all) (Suc 0) = 15"
  by code_simp+

text \<open>
  The three-bus network with energy price 30 and duals 2, 4 and 3 on branch1, on
  interface I1 and on branch1 under contingency c1: the price vector is
  \<open>[30, 30 + 2 + 0 + 15, 30 + 2 + 4 + 15]\<close>, with the entry of the reference bus A at
  30. With the dual of branch1 alone it is \<open>[30, 32, 32]\<close>.
\<close>

theorem lmp_reference_bus_reinserted_witness:
  "distinct (buses_keys ex_engine)
   \<and> reference_bus ex_engine \<in> set (buses_keys ex_engine)
   \<and> has_contingencies ex_engine
   \<and> contingency_duals ex_duals_all = [((''c1'', ''branch1''), 3)]
   \<and> interface_dual ex_duals_all ''I1'' = Some 4
   \<and> contingency_rows ex_state_c1 (''c1'', ''branch1'') = Some [- 5, - 5]
   \<and> calculate_LMP ex_engine ex_state_c1 ex_duals_all = Inr [30, 47, 51]
   \<and> length [30, 47, 51 :: real] = length (buses_keys ex_engine)
   \<and> busname_to_index_map ex_engine (reference_bus ex_engine) = Some 0
   \<and> [30, 47, 51] ! 0 = bus_balance_dual ex_duals_all
   \<and> remove_reference_bus ex_engine [30, 47, 51] = Inr [30 + 2 + 0 + 15, 30 + 2 + 4 + 15]
   \<and> calculate_LMP ex_engine (init_state [0, 0]) ex_duals = Inr [30, 32, 32]"
proof -
  have d: "distinct (buses_keys ex_engine)"
    and r: "reference_bus ex_engine \<in> set (buses_keys ex_engine)"
    and nB: "ncols (B_dA_masked (filtered ex_engine)) = length (buses_keys_no_ref ex_engine)"
    and nI: "ncols (B_dA_I ex_engine) = length (buses_keys_no_ref ex_engine)"
    and rB: "length (mrows (B_dA_masked (filtered ex_engine)))
               = length (branches_keys_masked (filtered ex_engine))"
    and rI: "length (mrows (B_dA_I ex_engine)) = length (interface_keys ex_engine)"
    and hc: "has_contingencies ex_engine"
    and n2: "length (buses_keys_no_ref ex_engine) = 2"
    by (simp_all add: ex_engine_def ex_masked_def ex_B_dA_def buses_keys_no_ref_def)
  have cd: "contingency_duals ex_duals_all = [((''c1'', ''branch1''), 3)]"
    and idl: "interface_dual ex_duals_all ''I1'' = Some 4"
    and E: "bus_balance_dual ex_duals_all = 30"
    by (simp_all add: ex_duals_all_def)
  have i0: "busname_to_index_map ex_engine (reference_bus ex_engine) = Some 0"
    by (simp add: busname_to_index_map_def index_map_def ex_engine_def)
  have av: "has_contingencies ex_engine \<longrightarrow>
             (\<forall>p \<in> set (contingency_duals ex_duals_all). snd p \<noteq> 0 \<longrightarrow>
                (\<exists>row. contingency_rows ex_state_c1 (fst p) = Some row
                       \<and> length row = length (buses_keys_no_ref ex_engine)))"
    by (simp add: cd ex_state_c1_row n2)
  note t = lmp_reference_bus_reinserted[OF d r ex_solve_length nB nI rB rI,
      of ex_state_c1 ex_duals_all]
  from t[THEN conjunct1, rule_format, OF ex_lmp_all]
  obtain i where len: "length [30, 47, 51 :: real] = length (buses_keys ex_engine)"
    and i: "busname_to_index_map ex_engine (reference_bus ex_engine) = Some i"
    and v: "[30, 47, 51] ! i = bus_balance_dual ex_duals_all"
    by blast
  from i i0 v have v0: "[30, 47, 51] ! 0 = bus_balance_dual ex_duals_all" by simp
  from t[THEN conjunct2, THEN mp, OF av]
  obtain LMP where c: "calculate_LMP ex_engine ex_state_c1 ex_duals_all = Inr LMP"
    and q: "remove_reference_bus ex_engine LMP =
              Inr (map (\<lambda>j. bus_balance_dual ex_duals_all
                           + branch_congestion_component ex_engine ex_duals_all ! j
                           + interface_component ex_engine ex_duals_all ! j
                           + (if has_contingencies ex_engine
                              then contingency_congestion_component (contingency_rows ex_state_c1)
                                     (contingency_duals ex_duals_all) j
                              else 0))
                     [0..<length (buses_keys_no_ref ex_engine)])"
    by blast
  from c ex_lmp_all have L: "LMP = [30, 47, 51]" by simp
  have upt2: "[0..<2] = [0, Suc 0]" by (simp add: upt_rec)
  from q have rem: "remove_reference_bus ex_engine [30, 47, 51]
                      = Inr [30 + 2 + 0 + 15, 30 + 2 + 4 + 15]"
    unfolding L n2 upt2 by (simp add: hc E ex_components)
  from d r hc cd idl ex_state_c1_row ex_lmp_all len i0 v0 rem ex_lmp show ?thesis by blast
qed

subsection \<open>Tolerance truncation in linear expressions\<close>

lemma np_abs_max_Inr:
  assumes "np_abs_max row = Inr m"
  shows "row \<noteq> [] \<and> m = Max (set (map abs row))"
proof (cases row)
  case Nil
  with assms show ?thesis by (simp add: np_abs_max_def)
next
  case (Cons x xs)
  have "Max (set (\<bar>x\<bar> # map abs xs)) = fold max (map abs xs) \<bar>x\<bar>"
    by (rule Max.set_eq_fold)
  with assms Cons show ?thesis by (simp add: np_abs_max_def)
qed

lemma get_vdf_row_hit:
  "vdf_rows fs b = Some row \<Longrightarrow> get_vdf_row PTDF fs b = (Inr row, fs)"
  by (simp add: get_vdf_row_def)

lemma get_vdf_row_Inr:
  assumes "get_vdf_row PTDF fs b = (Inr row, fs')"
  shows "vdf_rows fs' b = Some row" and "vdf_const fs' = vdf_const fs"
  using assms
  by (auto simp: get_vdf_row_def Let_def split: option.splits sum.splits)

lemma get_bus_vdf_const_Inr:
  assumes "get_bus_vdf_const PTDF fs b = (Inr c, fs1)"
  shows "vdf_const fs1 b = Some c"
  using assms
  by (auto simp: get_bus_vdf_const_def split: option.splits sum.splits prod.splits)

lemma get_bus_vdf_const_hit:
  "vdf_const fs b = Some c \<Longrightarrow> get_bus_vdf_const PTDF fs b = (Inr c, fs)"
  by (simp add: get_bus_vdf_const_def)

lemma get_bus_vdf_abs_max_Inr:
  assumes "get_bus_vdf_abs_max PTDF fs1 b = (Inr m, fs2)"
  shows "\<exists>row. vdf_rows fs2 b = Some row \<and> np_abs_max row = Inr m \<and> vdf_const fs2 = vdf_const fs1"
proof -
  from assms obtain row where g: "get_vdf_row PTDF fs1 b = (Inr row, fs2)"
    and m: "np_abs_max row = Inr m"
    by (auto simp: get_bus_vdf_abs_max_def split: prod.splits sum.splits)
  from get_vdf_row_Inr[OF g] m show ?thesis by blast
qed

lemma vm_expr_loop_Inr:
  "vm_expr_loop q tol it cl vl c = Inr (cl', vl', c') \<Longrightarrow>
     cl' = cl @ map snd (filter (\<lambda>(b, x). \<bar>x\<bar> \<ge> tol) it)
   \<and> vl' = vl @ map (\<lambda>(b, x). Q_nw b) (filter (\<lambda>(b, x). \<bar>x\<bar> \<ge> tol) it)"
proof (induction q tol it cl vl c rule: vm_expr_loop.induct)
  case (1 m_q_nw ptdf_tol coef_list var_list cnst)
  then show ?case by simp
next
  case (2 m_q_nw ptdf_tol bn coef rest coef_list var_list cnst)
  show ?case
  proof (cases "\<bar>coef\<bar> \<ge> ptdf_tol")
    case True
    with "2.prems" obtain v where v: "m_q_nw bn = Some v"
      and r: "vm_expr_loop m_q_nw ptdf_tol rest (coef_list @ [coef]) (var_list @ [Q_nw bn]) cnst
                = Inr (cl', vl', c')"
      by (auto split: option.splits)
    from "2.IH"(1)[OF True v r] True show ?thesis by simp
  next
    case False
    with "2.prems" obtain v where v: "m_q_nw bn = Some v"
      and r: "vm_expr_loop m_q_nw ptdf_tol rest coef_list var_list (cnst + coef * v)
                = Inr (cl', vl', c')"
      by (auto split: option.splits)
    from "2.IH"(2)[OF False v r] False show ?thesis by simp
  qed
qed

lemma ploss_expr_loop_Inr:
  "ploss_expr_loop p tol it cl vl = Inr (cl', vl') \<Longrightarrow>
     cl' = cl @ map snd (filter (\<lambda>(b, x). \<bar>x\<bar> \<ge> tol) it)
   \<and> vl' = vl @ map (\<lambda>(b, x). P_nw b) (filter (\<lambda>(b, x). \<bar>x\<bar> \<ge> tol) it)"
proof (induction p tol it cl vl rule: ploss_expr_loop.induct)
  case (1 m_p_nw ptdf_tol coef_list var_list)
  then show ?case by simp
next
  case (2 m_p_nw ptdf_tol bus_name coef rest coef_list var_list)
  show ?case
  proof (cases "\<bar>coef\<bar> \<ge> ptdf_tol")
    case True
    with "2.prems" obtain v where v: "m_p_nw bus_name = Some v"
      and r: "ploss_expr_loop m_p_nw ptdf_tol rest (coef_list @ [coef]) (var_list @ [P_nw bus_name])
                = Inr (cl', vl')"
      by (auto split: option.splits)
    from "2.IH"(1)[OF True v r] True show ?thesis by simp
  next
    case False
    with "2.prems" have r: "ploss_expr_loop m_p_nw ptdf_tol rest coef_list var_list = Inr (cl', vl')"
      by simp
    from "2.IH"(2)[OF False r] False show ?thesis by simp
  qed
qed

lemma residual_loop_Inr:
  "residual_loop ks f is cl vl = Inr (cl', vl') \<Longrightarrow>
     \<exists>bns. cl' = cl @ map (\<lambda>bn. 1) bns \<and> vl' = vl @ map Pfl bns"
proof (induction ks f "is" cl vl rule: residual_loop.induct)
  case (1 keys_masked m_pfl coef_list var_list)
  then show ?case by simp
next
  case (2 keys_masked m_pfl i rest coef_list var_list)
  from "2.prems" obtain bn v where bn: "np_get keys_masked i = Inr bn" and v: "m_pfl bn = Some v"
    and r: "residual_loop keys_masked m_pfl rest (coef_list @ [1]) (var_list @ [Pfl bn]) = Inr (cl', vl')"
    by (auto split: sum.splits option.splits)
  from "2.IH"[OF bn v r] obtain bns where
    "cl' = (coef_list @ [1]) @ map (\<lambda>bn. 1) bns" "vl' = (var_list @ [Pfl bn]) @ map Pfl bns"
    by blast
  then have "cl' = coef_list @ map (\<lambda>bn. 1) (bn # bns) \<and> vl' = var_list @ map Pfl (bn # bns)"
    by simp
  then show ?case by blast
qed

lemma bus_terms_Q:
  "bus_terms \<lparr>linear_vars = map (\<lambda>(b, x). Q_nw b) ps, linear_coefs = map snd ps, constant_term = c\<rparr> = ps"
  by (induction ps) (auto simp: bus_terms_def)

lemma bus_terms_P:
  "bus_terms \<lparr>linear_vars = map (\<lambda>(b, x). P_nw b) ps @ map Pfl bns,
              linear_coefs = map snd ps @ map (\<lambda>bn. 1) bns, constant_term = c\<rparr> = ps"
proof -
  let ?f = "\<lambda>(v, c :: real). case v of P_nw b \<Rightarrow> [(b, c)] | Q_nw b \<Rightarrow> [(b, c)] | Pfl bn \<Rightarrow> []"
  have z: "concat (map ?f (zip (map Pfl bns) (map (\<lambda>bn. 1) bns))) = []"
    by (induction bns) auto
  have p: "concat (map ?f (zip (map (\<lambda>(b, x). P_nw b) ps) (map snd ps))) = ps"
    by (induction ps) auto
  have "zip (map (\<lambda>(b, x). P_nw b) ps @ map Pfl bns) (map snd ps @ map (\<lambda>bn. 1) bns)
          = zip (map (\<lambda>(b, x). P_nw b) ps) (map snd ps) @ zip (map Pfl bns) (map (\<lambda>bn. 1) bns)"
    by simp
  then show ?thesis
    unfolding bus_terms_def by (simp add: z p del: zip_append)
qed

lemma vm_expr_cached:
  assumes row: "vdf_rows s bus = Some row" and c: "vdf_const s bus = Some c"
  shows "get_vm_expr_ptdf_approx b' bus PTDF s rel_tol abs_tol =
           (case np_abs_max row of
              Inl e \<Rightarrow> (Inl e, s)
            | Inr mx \<Rightarrow>
                (case vm_expr_loop (q_nw b') (max (tol_or_zero abs_tol) (tol_or_zero rel_tol * mx))
                        (zip (buses_keys (fdf_base PTDF)) row) [] [] c of
                   Inl e \<Rightarrow> (Inl e, s)
                 | Inr (cl, vl, c') \<Rightarrow>
                     (Inr \<lparr>linear_vars = vl, linear_coefs = cl, constant_term = c'\<rparr>, s)))"
  by (simp add: get_vm_expr_ptdf_approx_def get_bus_vdf_const_hit[OF c]
      get_bus_vdf_abs_max_def get_bus_vdf_iterator_def get_vdf_row_hit[OF row]
      tol_or_zero_def Let_def split: sum.splits prod.splits)

lemma vm_expr_first:
  assumes res: "get_vm_expr_ptdf_approx blk bus PTDF fs rel_tol abs_tol = (Inr e, fs')"
  shows "\<exists>row c. vdf_rows fs' bus = Some row \<and> vdf_const fs' bus = Some c
           \<and> get_vm_expr_ptdf_approx blk bus PTDF fs' rel_tol abs_tol = (Inr e, fs')"
proof -
  from res obtain c fs1 where gc: "get_bus_vdf_const PTDF fs bus = (Inr c, fs1)"
    by (auto simp: get_vm_expr_ptdf_approx_def Let_def split: prod.splits sum.splits)
  from res gc obtain mx fs2 where gm: "get_bus_vdf_abs_max PTDF fs1 bus = (Inr mx, fs2)"
    by (auto simp: get_vm_expr_ptdf_approx_def Let_def split: prod.splits sum.splits)
  from get_bus_vdf_abs_max_Inr[OF gm] obtain row where row: "vdf_rows fs2 bus = Some row"
    and mx: "np_abs_max row = Inr mx" and same: "vdf_const fs2 = vdf_const fs1" by blast
  have gi: "get_bus_vdf_iterator PTDF fs2 bus = (Inr (zip (buses_keys (fdf_base PTDF)) row), fs2)"
    by (simp add: get_bus_vdf_iterator_def get_vdf_row_hit[OF row])
  have c2: "vdf_const fs2 bus = Some c"
    using get_bus_vdf_const_Inr[OF gc] same by simp
  let ?loop = "vm_expr_loop (q_nw blk) (max (tol_or_zero abs_tol) (tol_or_zero rel_tol * mx))
                 (zip (buses_keys (fdf_base PTDF)) row) [] [] c"
  from res gc gm gi have r1: "(case ?loop of
         Inl e \<Rightarrow> (Inl e, fs2)
       | Inr (cl, vl, c') \<Rightarrow>
           (Inr \<lparr>linear_vars = vl, linear_coefs = cl, constant_term = c'\<rparr>, fs2)) = (Inr e, fs')"
    by (simp add: get_vm_expr_ptdf_approx_def Let_def tol_or_zero_def)
  then have fs': "fs' = fs2"
    by (auto split: sum.splits prod.splits)
  have "get_vm_expr_ptdf_approx blk bus PTDF fs2 rel_tol abs_tol = (Inr e, fs')"
    using r1 by (simp add: vm_expr_cached[OF row c2] mx)
  with row c2 fs' show ?thesis by simp
qed

lemma vm_expr_terms:
  assumes row: "vdf_rows s bus = Some row" and c: "vdf_const s bus = Some c"
    and res: "get_vm_expr_ptdf_approx b' bus PTDF s rel_tol abs_tol = (Inr e, s')"
  shows "row \<noteq> [] \<and> bus_terms e =
           spec_included (tol_or_zero abs_tol) (tol_or_zero rel_tol) row
             (zip (buses_keys (fdf_base PTDF)) row)"
proof -
  from res obtain mx where mx: "np_abs_max row = Inr mx"
    unfolding vm_expr_cached[OF row c] by (auto split: sum.splits)
  from np_abs_max_Inr[OF mx] have ne: "row \<noteq> []" and mxv: "mx = Max (set (map abs row))"
    by simp_all
  let ?tol = "max (tol_or_zero abs_tol) (tol_or_zero rel_tol * mx)"
  let ?it = "zip (buses_keys (fdf_base PTDF)) row"
  let ?inc = "filter (\<lambda>(b, x). \<bar>x\<bar> \<ge> ?tol) ?it"
  from res mx obtain cl vl c' where loop: "vm_expr_loop (q_nw b') ?tol ?it [] [] c = Inr (cl, vl, c')"
    and e: "e = \<lparr>linear_vars = vl, linear_coefs = cl, constant_term = c'\<rparr>"
    unfolding vm_expr_cached[OF row c] by (auto split: sum.splits)
  from vm_expr_loop_Inr[OF loop]
  have "cl = map snd ?inc" "vl = map (\<lambda>(b, x). Q_nw b) ?inc" by simp_all
  then have "bus_terms e = ?inc" unfolding e by (simp add: bus_terms_Q)
  then show ?thesis using ne by (simp add: spec_included_def mxv)
qed

text \<open>
  Claim C6. In a voltage expression built by \<^verbatim>\<open>get_vm_expr_ptdf_approx\<close> the (bus,
  coefficient) pairs are exactly the pairs of the bus's sensitivity row, in the row's
  order, with \<open>\<bar>coef\<bar> \<ge> max abs_tol (rel_tol * row_abs_max)\<close>, where \<open>row_abs_max\<close> is the
  largest absolute coefficient of the row and a tolerance not given is 0. Building the
  expression again returns the same expression and state, and with other values of the
  variables the same pairs. In a loss expression built by \<^verbatim>\<open>get_ploss_expr_ptdf_approx\<close>
  the pairs on bus injections are those of the loss factors that pass the same test.
\<close>

theorem tolerance_truncation:
  "(\<forall>e fs'. get_vm_expr_ptdf_approx blk bus PTDF fs rel_tol abs_tol = (Inr e, fs') \<longrightarrow>
      (\<exists>row. vdf_rows fs' bus = Some row \<and> row \<noteq> []
         \<and> bus_terms e = spec_included (tol_or_zero abs_tol) (tol_or_zero rel_tol) row
                            (zip (buses_keys (fdf_base PTDF)) row)
         \<and> get_vm_expr_ptdf_approx blk bus PTDF fs' rel_tol abs_tol = (Inr e, fs')
         \<and> (\<forall>blk' e' fs''.
               get_vm_expr_ptdf_approx blk' bus PTDF fs' rel_tol abs_tol = (Inr e', fs'') \<longrightarrow>
                 bus_terms e' = bus_terms e)))
   \<and> (\<forall>e. get_ploss_expr_ptdf_approx m PTDF abs_tol2 rel_tol2 use_residuals = Inr e \<longrightarrow>
        (\<exists>a r. abs_tol2 = Some a \<and> rel_tol2 = Some r \<and> lossfactor PTDF \<noteq> []
           \<and> bus_terms e = spec_included a r (map snd (lossfactor PTDF)) (lossfactor PTDF)))"
proof (intro conjI allI impI)
  fix e fs'
  assume res: "get_vm_expr_ptdf_approx blk bus PTDF fs rel_tol abs_tol = (Inr e, fs')"
  let ?a = "tol_or_zero abs_tol" and ?r = "tol_or_zero rel_tol"
  let ?ks = "buses_keys (fdf_base PTDF)"
  from vm_expr_first[OF res] obtain row c where row: "vdf_rows fs' bus = Some row"
    and c: "vdf_const fs' bus = Some c"
    and again: "get_vm_expr_ptdf_approx blk bus PTDF fs' rel_tol abs_tol = (Inr e, fs')"
    by blast
  note t = vm_expr_terms[OF row c again]
  have other: "bus_terms e' = bus_terms e"
    if "get_vm_expr_ptdf_approx blk' bus PTDF fs' rel_tol abs_tol = (Inr e', fs'')"
    for blk' e' fs''
    using vm_expr_terms[OF row c that] t by simp
  show "\<exists>row. vdf_rows fs' bus = Some row \<and> row \<noteq> []
         \<and> bus_terms e = spec_included ?a ?r row (zip ?ks row)
         \<and> get_vm_expr_ptdf_approx blk bus PTDF fs' rel_tol abs_tol = (Inr e, fs')
         \<and> (\<forall>blk' e' fs''.
               get_vm_expr_ptdf_approx blk' bus PTDF fs' rel_tol abs_tol = (Inr e', fs'') \<longrightarrow>
                 bus_terms e' = bus_terms e)"
    using row t again other by blast
next
  fix e
  assume res: "get_ploss_expr_ptdf_approx m PTDF abs_tol2 rel_tol2 use_residuals = Inr e"
  from res obtain mx where mx: "np_abs_max (map snd (lossfactor PTDF)) = Inr mx"
    by (auto simp: get_ploss_expr_ptdf_approx_def get_lossfactor_abs_max_def Let_def
        split: sum.splits)
  from np_abs_max_Inr[OF mx] have ne: "lossfactor PTDF \<noteq> []"
    and mxv: "mx = Max (set (map abs (map snd (lossfactor PTDF))))" by auto
  from res mx obtain a r where a: "abs_tol2 = Some a" and r: "rel_tol2 = Some r"
    by (auto simp: get_ploss_expr_ptdf_approx_def get_lossfactor_abs_max_def Let_def
        split: option.splits)
  let ?tol = "max a (r * mx)"
  let ?inc = "filter (\<lambda>(b, x). \<bar>x\<bar> \<ge> ?tol) (lossfactor PTDF)"
  from res mx a r obtain cl vl where
    loop: "ploss_expr_loop (p_nw m) ?tol (lossfactor PTDF) [] [] = Inr (cl, vl)"
    by (auto simp: get_ploss_expr_ptdf_approx_def get_lossfactor_abs_max_def Let_def
        lossfactor_resid_def split: sum.splits if_splits)
  from ploss_expr_loop_Inr[OF loop]
  have cl: "cl = map snd ?inc" and vl: "vl = map (\<lambda>(b, x). P_nw b) ?inc" by simp_all
  have "\<exists>bns. linear_vars e = vl @ map Pfl bns \<and> linear_coefs e = cl @ map (\<lambda>bn. 1) bns"
  proof (cases use_residuals)
    case False
    with res mx a r loop have "linear_vars e = vl \<and> linear_coefs e = cl"
      by (auto simp: get_ploss_expr_ptdf_approx_def get_lossfactor_abs_max_def Let_def)
    then show ?thesis by (intro exI[of _ "[]"]) simp
  next
    case True
    with res mx a r loop obtain cl' vl' where
      rl: "residual_loop (branches_keys_masked (filtered (fdf_base PTDF))) (pfl m)
             (idx_monitored m) cl vl = Inr (cl', vl')"
      and e: "linear_vars e = vl'" "linear_coefs e = cl'"
      by (auto simp: get_ploss_expr_ptdf_approx_def get_lossfactor_abs_max_def Let_def
          lossfactor_resid_def split: sum.splits)
    from residual_loop_Inr[OF rl] e show ?thesis by auto
  qed
  then obtain bns where "linear_vars e = vl @ map Pfl bns" "linear_coefs e = cl @ map (\<lambda>bn. 1) bns"
    by blast
  then have "e = \<lparr>linear_vars = map (\<lambda>(b, x). P_nw b) ?inc @ map Pfl bns,
              linear_coefs = map snd ?inc @ map (\<lambda>bn. 1) bns, constant_term = constant_term e\<rparr>"
    by (simp add: cl vl)
  then have "bus_terms e = ?inc"
    using bus_terms_P[of ?inc bns "constant_term e"] by simp
  then have "bus_terms e = spec_included a r (map snd (lossfactor PTDF)) (lossfactor PTDF)"
    by (simp add: spec_included_def mxv)
  with a r ne show "\<exists>a r. abs_tol2 = Some a \<and> rel_tol2 = Some r \<and> lossfactor PTDF \<noteq> []
           \<and> bus_terms e = spec_included a r (map snd (lossfactor PTDF)) (lossfactor PTDF)"
    by blast
qed



lemma ex_vm_first:
  "fst (get_vm_expr_ptdf_approx (ex_block 2) ''B'' ex_fdf fdf_init_state (Some (2 / 5)) None)
     = Inr ex_vm_expr"
  by code_simp

lemma ex_vm_second:
  "fst (get_vm_expr_ptdf_approx (ex_block 7) ''B'' ex_fdf
          (snd (get_vm_expr_ptdf_approx (ex_block 2) ''B'' ex_fdf fdf_init_state (Some (2 / 5)) None))
          (Some (2 / 5)) None)
     = Inr ex_vm_expr7"
  by code_simp

lemma ex_ploss:
  "get_ploss_expr_ptdf_approx (ex_block 2) ex_fdf (Some 0) (Some (1 / 2)) True = Inr ex_ploss_expr"
  by code_simp

text \<open>
  Bus B of the three-bus network has the row \<open>[-1/2, -1, -1/4]\<close>: with relative
  tolerance 2/5 the pairs of A and B are included, whatever the values in \<^verbatim>\<open>q_nw\<close>. Of
  the loss factors \<open>0, 1/50, 1/20\<close>, relative tolerance 1/2 keeps that of C.
\<close>

theorem tolerance_truncation_witness:
  "fst (get_vm_expr_ptdf_approx (ex_block 2) ''B'' ex_fdf fdf_init_state (Some (2 / 5)) None)
     = Inr ex_vm_expr
   \<and> bus_terms ex_vm_expr = [(''A'', - (1 / 2)), (''B'', - 1)]
   \<and> (\<exists>row. bus_terms ex_vm_expr
               = spec_included 0 (2 / 5) row (zip (buses_keys (fdf_base ex_fdf)) row))
   \<and> bus_terms ex_vm_expr7 = bus_terms ex_vm_expr
   \<and> get_ploss_expr_ptdf_approx (ex_block 2) ex_fdf (Some 0) (Some (1 / 2)) True
       = Inr ex_ploss_expr
   \<and> bus_terms ex_ploss_expr = [(''C'', 1 / 20)]
   \<and> bus_terms ex_ploss_expr
       = spec_included 0 (1 / 2) (map snd (lossfactor ex_fdf)) (lossfactor ex_fdf)"
proof -
  let ?call = "get_vm_expr_ptdf_approx (ex_block 2) ''B'' ex_fdf fdf_init_state (Some (2 / 5)) None"
  let ?again = "get_vm_expr_ptdf_approx (ex_block 7) ''B'' ex_fdf (snd ?call) (Some (2 / 5)) None"
  have first: "?call = (Inr ex_vm_expr, snd ?call)"
    using ex_vm_first by (simp add: prod_eq_iff)
  have second: "?again = (Inr ex_vm_expr7, snd ?again)"
    using ex_vm_second by (simp add: prod_eq_iff)
  note t = tolerance_truncation[of "ex_block 2" "''B''" ex_fdf fdf_init_state "Some (2 / 5)" None
      "ex_block 2" "Some 0" "Some (1 / 2)" True]
  from t[THEN conjunct1, rule_format, OF first]
  obtain row where
    inc: "bus_terms ex_vm_expr
            = spec_included (tol_or_zero None) (tol_or_zero (Some (2 / 5))) row
                (zip (buses_keys (fdf_base ex_fdf)) row)"
    and rep: "\<forall>blk' e' fs''.
               get_vm_expr_ptdf_approx blk' ''B'' ex_fdf (snd ?call) (Some (2 / 5)) None = (Inr e', fs'')
                 \<longrightarrow> bus_terms e' = bus_terms ex_vm_expr"
    by blast
  from inc have inc': "\<exists>row. bus_terms ex_vm_expr
               = spec_included 0 (2 / 5) row (zip (buses_keys (fdf_base ex_fdf)) row)"
    by (auto simp: tol_or_zero_def)
  from rep[rule_format, OF second] have same: "bus_terms ex_vm_expr7 = bus_terms ex_vm_expr" .
  from t[THEN conjunct2, rule_format, OF ex_ploss]
  obtain a r where a: "Some (0 :: real) = Some a" and r: "Some (1 / 2 :: real) = Some r"
    and p: "bus_terms ex_ploss_expr
              = spec_included a r (map snd (lossfactor ex_fdf)) (lossfactor ex_fdf)"
    by blast
  from a r have "a = 0" "r = 1 / 2" by auto
  with p have pl: "bus_terms ex_ploss_expr
       = spec_included 0 (1 / 2) (map snd (lossfactor ex_fdf)) (lossfactor ex_fdf)"
    by (simp only:)
  have v1: "bus_terms ex_vm_expr = [(''A'', - (1 / 2)), (''B'', - 1)]"
    by (simp add: bus_terms_def ex_vm_expr_def)
  have v2: "bus_terms ex_ploss_expr = [(''C'', 1 / 20)]"
    by (simp add: bus_terms_def ex_ploss_expr_def)
  from ex_vm_first v1 inc' same ex_ploss v2 pl show ?thesis by blast
qed

subsection \<open>Branch filtering\<close>

lemma filter_loop_ok:
  "\<forall>p \<in> set ps. \<exists>r. filter_branch brs bss one kv (snd p) = Inr r \<Longrightarrow>
   filter_loop brs bss one kv ps acc w =
     Inr (acc @ map fst (filter (\<lambda>p. keep_of brs bss one kv (snd p)) ps),
          w @ concat (map (\<lambda>p. warn_of brs bss one kv (snd p)) ps))"
proof (induction ps arbitrary: acc w)
  case Nil
  then show ?case by simp
next
  case (Cons p ps)
  obtain i bn where p: "p = (i, bn)" by (cases p)
  from Cons.prems obtain k w' where r: "filter_branch brs bss one kv bn = Inr (k, w')"
    by (auto simp: p)
  have rest: "\<forall>p \<in> set ps. \<exists>r. filter_branch brs bss one kv (snd p) = Inr r"
    using Cons.prems by simp
  show ?case
    by (simp add: p r Cons.IH[OF rest] keep_of_def warn_of_def)
qed

lemma filter_branch_ok:
  assumes "brs bn = Some br" "bss (from_bus br) = Some fb" "bss (to_bus br) = Some tb"
  shows "\<exists>w. filter_branch brs bss one kv bn =
           Inr (if one then bus_passes kv fb \<or> bus_passes kv tb
                else bus_passes kv fb \<and> bus_passes kv tb, w)"
  using assms
  by (auto simp: filter_branch_def bus_passes_def Let_def not_less split: option.splits)

lemma np_take_ok: "\<forall>i \<in> set idx. i < length xs \<Longrightarrow> np_take xs idx = Inr (map (\<lambda>i. xs ! i) idx)"
  by (simp add: np_take_def)

lemma mask_set:
  "set (map fst (filter (\<lambda>p. P (snd p)) (zip [0..<length ks] ks))) = {i. i < length ks \<and> P (ks ! i)}"
proof -
  have "\<And>x. x < length ks \<Longrightarrow> P (ks ! x) \<Longrightarrow>
          \<exists>b. (\<exists>i. x = [0..<length ks] ! i \<and> b = ks ! i \<and> i < length ks) \<and> P b"
    by (metis add_0 nth_upt)
  then show ?thesis by (auto simp: set_zip image_iff)
qed

text \<open>
  Claim C5. With a voltage threshold set, filtering a well-formed network returns a mask,
  and the index of a branch is in the mask exactly when the specification's rule retains
  the branch: under mode "one" when at least one terminal bus lacks \<^verbatim>\<open>base_kv\<close> or has
  \<^verbatim>\<open>base_kv\<close> at least the threshold, under any other mode (among them "both") when
  both terminal buses do. The masked keys are the keys at the indices of the mask.
\<close>

theorem filtered_lines_retained:
  assumes wf: "network_wf eng"
    and thr: "branch_kv_threshold opts = Some kv"
  shows "\<exists>m w. get_filtered_lines eng opts = Inr (m, w)
           \<and> branches_keys_masked m = map (\<lambda>i. branches_keys eng ! i) (branch_mask m)
           \<and> (\<forall>i < length (branches_keys eng). \<forall>br fb tb.
                 branches eng (branches_keys eng ! i) = Some br \<longrightarrow>
                 buses eng (from_bus br) = Some fb \<longrightarrow>
                 buses eng (to_bus br) = Some tb \<longrightarrow>
                 (i \<in> set (branch_mask m) \<longleftrightarrow> spec_retained (kv_threshold_type opts) kv fb tb))"
proof -
  let ?ks = "branches_keys eng"
  let ?one = "kv_threshold_type opts = ''one''"
  let ?ps = "zip [0..<length ?ks] ?ks"
  let ?keep = "keep_of (branches eng) (buses eng) ?one kv"
  let ?m = "map fst (filter (\<lambda>p. ?keep (snd p)) ?ps)"
  have each: "\<exists>r. filter_branch (branches eng) (buses eng) ?one kv bn = Inr r"
    if "bn \<in> set ?ks" for bn
  proof -
    from wf that obtain br fb tb where "branches eng bn = Some br"
      "buses eng (from_bus br) = Some fb" "buses eng (to_bus br) = Some tb"
      unfolding network_wf_def by blast
    from filter_branch_ok[where brs="branches eng" and bss="buses eng", OF this]
    show ?thesis by blast
  qed
  have "\<forall>p \<in> set ?ps. \<exists>r. filter_branch (branches eng) (buses eng) ?one kv (snd p) = Inr r"
    using each by (auto dest: set_zip_rightD)
  from filter_loop_ok[OF this, of "[]" "[]"]
  obtain w where loop: "filter_loop (branches eng) (buses eng) ?one kv ?ps [] [] = Inr (?m, w)"
    by simp
  have mset: "set ?m = {i. i < length ?ks \<and> ?keep (?ks ! i)}"
    by (rule mask_set)
  have rng: "\<forall>i \<in> set ?m. i < length ?ks" using mset by auto
  have t1: "np_take (mrows (B_dA eng)) ?m = Inr (map (\<lambda>i. mrows (B_dA eng) ! i) ?m)"
    using rng wf by (intro np_take_ok) (simp add: network_wf_def)
  have t2: "np_take (phase_shift_flow_adjuster_array eng) ?m
              = Inr (map (\<lambda>i. phase_shift_flow_adjuster_array eng ! i) ?m)"
    using rng wf by (intro np_take_ok) (simp add: network_wf_def)
  have t3: "np_take (branch_limits_array eng) ?m = Inr (map (\<lambda>i. branch_limits_array eng ! i) ?m)"
    using rng wf by (intro np_take_ok) (simp add: network_wf_def)
  have t4: "np_take (contingency_limits_array eng) ?m
              = Inr (map (\<lambda>i. contingency_limits_array eng ! i) ?m)"
    using rng wf by (intro np_take_ok) (simp add: network_wf_def)
  obtain m where res: "get_filtered_lines eng opts = Inr (m, w)" and bm: "branch_mask m = ?m"
    and km: "branches_keys_masked m = map (\<lambda>i. ?ks ! i) ?m"
    by (simp add: get_filtered_lines_def thr loop sp_take_rows_def t1 t2 t3 t4)
  have iff: "i \<in> set ?m \<longleftrightarrow> spec_retained (kv_threshold_type opts) kv fb tb"
    if "i < length ?ks" "branches eng (?ks ! i) = Some br"
      "buses eng (from_bus br) = Some fb" "buses eng (to_bus br) = Some tb" for i br fb tb
  proof -
    from filter_branch_ok[where brs="branches eng" and bss="buses eng" and one="?one" and kv=kv,
        OF that(2,3,4)]
    have "?keep (?ks ! i) = spec_retained (kv_threshold_type opts) kv fb tb"
      by (auto simp: keep_of_def spec_retained_def)
    moreover have "i \<in> set ?m \<longleftrightarrow> ?keep (?ks ! i)"
      unfolding mset using that(1) by simp
    ultimately show ?thesis by (simp only:)
  qed
  show ?thesis
    using res bm km iff by (intro exI[of _ m] exI[of _ w]) simp
qed

lemma ex_network_wf: "network_wf ex_engine"
  by (simp add: network_wf_def ex_engine_def ex_branches_def ex_buses_def ex_B_dA_def)

text \<open>
  The scenario of the specification on branch1 of the three-bus network, between bus A
  with base voltage 69 and bus B with 138: mode "both" excludes it at threshold 100 and
  retains it at threshold 50, and mode "one" retains it at threshold 100.
\<close>

theorem filtered_lines_retained_witness:
  "network_wf ex_engine
   \<and> (\<exists>m w. get_filtered_lines ex_engine (ex_options (Some 100) ''both'') = Inr (m, w)
          \<and> 0 \<notin> set (branch_mask m))
   \<and> (\<exists>m w. get_filtered_lines ex_engine (ex_options (Some 50) ''both'') = Inr (m, w)
          \<and> 0 \<in> set (branch_mask m))
   \<and> (\<exists>m w. get_filtered_lines ex_engine (ex_options (Some 100) ''one'') = Inr (m, w)
          \<and> 0 \<in> set (branch_mask m))"
proof -
  let ?br = "\<lparr>from_bus = ''A'', to_bus = ''B'', rating_long_term = 100,
               rating_emergency = Some 120\<rparr>"
  let ?fb = "\<lparr>base_kv = Some 69, v_min = 9 / 10, v_max = 11 / 10\<rparr>"
  let ?tb = "\<lparr>base_kv = Some 138, v_min = 9 / 10, v_max = 11 / 10\<rparr>"
  have i: "0 < length (branches_keys ex_engine)"
    and br: "branches ex_engine (branches_keys ex_engine ! 0) = Some ?br"
    and fb: "buses ex_engine (from_bus ?br) = Some ?fb"
    and tb: "buses ex_engine (to_bus ?br) = Some ?tb"
    by (simp_all add: ex_engine_def ex_branches_def ex_buses_def)
  have a: "\<exists>m w. get_filtered_lines ex_engine (ex_options (Some kv) mode) = Inr (m, w)
             \<and> (0 \<in> set (branch_mask m) \<longleftrightarrow> spec_retained mode kv ?fb ?tb)" for kv mode
  proof -
    have thr: "branch_kv_threshold (ex_options (Some kv) mode) = Some kv"
      by (simp add: ex_options_def)
    from filtered_lines_retained[OF ex_network_wf thr]
    obtain m w where r: "get_filtered_lines ex_engine (ex_options (Some kv) mode) = Inr (m, w)"
      and all: "\<forall>i < length (branches_keys ex_engine). \<forall>br fb tb.
                 branches ex_engine (branches_keys ex_engine ! i) = Some br \<longrightarrow>
                 buses ex_engine (from_bus br) = Some fb \<longrightarrow>
                 buses ex_engine (to_bus br) = Some tb \<longrightarrow>
                 (i \<in> set (branch_mask m)
                    \<longleftrightarrow> spec_retained (kv_threshold_type (ex_options (Some kv) mode)) kv fb tb)"
      by blast
    from all[rule_format, OF i br fb tb]
    have "0 \<in> set (branch_mask m) \<longleftrightarrow> spec_retained mode kv ?fb ?tb"
      by (simp add: ex_options_def)
    with r show ?thesis by blast
  qed
  have s1: "\<not> spec_retained ''both'' 100 ?fb ?tb"
    and s2: "spec_retained ''both'' 50 ?fb ?tb"
    and s3: "spec_retained ''one'' 100 ?fb ?tb"
    by (simp_all add: spec_retained_def bus_passes_def)
  from a[of 100 "''both''"] a[of 50 "''both''"] a[of 100 "''one''"] s1 s2 s3 ex_network_wf
  show ?thesis by blast
qed

subsection \<open>Limit policy\<close>

















lemma ex_set_lazy_neg_vm_limits:
  "set_lazy_vm_limits [- 100] [- 120] ex_abs_options = Some ex_neg_vm_limits"
  by (simp add: set_lazy_vm_limits_def ex_abs_options_def ex_neg_vm_limits_def np_maximum_def
      np_minimum_def Let_def)



end
